theory Spec2Isabelle
  imports Complex_Main "HOL-Library.Word"
begin

section \<open>The transaction manager of src/box/txn.cc\<close>

text \<open>
  The functions of \<^verbatim>\<open>txn.cc\<close> are embedded as functions on an explicit state, the
  \<open>world\<close> of one fiber. The transaction object a fiber owns is kept by value in the fiber's
  slot (\<open>fiber_txn\<close>, what \<^verbatim>\<open>in_txn()\<close> reads and \<^verbatim>\<open>fiber_set_txn\<close> writes); every call
  site of the file passes \<^verbatim>\<open>in_txn()\<close> as its \<^verbatim>\<open>struct txn *\<close> argument, so the pointer
  argument is read from and written back to that slot.

  Collaborators whose code is outside the file (engine hooks, trigger lists, allocator and
  fiber calls, the log writer) are recorded as events appended to \<open>trace\<close>, in call order.
  They return normally; the only exceptions of the model are the ones the file raises itself.
  A failed \<^verbatim>\<open>assert\<close> or a dereference of \<^verbatim>\<open>NULL\<close> ends the process: outcome \<open>Abort\<close>.
\<close>

subsection \<open>Data\<close>

type_synonym Engine = nat
type_synonym trigger = nat
type_synonym tuple = nat

datatype iproto_type = IPROTO_PREPARE | IPROTO_REQUEST nat

text \<open>
  \<^verbatim>\<open>struct xrow_header\<close>, with the members \<^verbatim>\<open>txn_add_redo\<close> initialises. The body is the
  list of buffers \<^verbatim>\<open>request_encode_xc\<close> fills. \<^verbatim>\<open>lsn\<close> is an \<^verbatim>\<open>int64_t\<close> and \<^verbatim>\<open>tm\<close> a
  \<^verbatim>\<open>double\<close>; they are only assigned here, and are read as \<open>int\<close> and \<open>real\<close>.
\<close>

record xrow_header =
  row_type :: iproto_type
  row_replica_id :: nat
  row_lsn :: int
  row_sync :: nat
  row_tm :: real
  row_tx_id :: "64 word"
  row_coordinator_id :: "32 word"
  row_bodycnt :: int
  row_body :: "string list"

text \<open>
  \<^verbatim>\<open>struct request\<close>: \<open>header\<close> is \<open>None\<close> for a request that did not come with a row (a Lua
  request). \<open>encoded\<close> is what \<^verbatim>\<open>request_encode_xc\<close> writes for this request; the encoder is
  outside the file.
\<close>

record request =
  header :: "xrow_header option"
  req_type :: iproto_type
  encoded :: "string list"

text \<open>
  \<^verbatim>\<open>struct space\<close>, as far as the file reads it: \<open>handler_engine\<close> is
  \<^verbatim>\<open>space->handler->engine\<close>, \<open>is_temporary\<close> what \<^verbatim>\<open>space_is_temporary\<close> returns,
  \<open>on_replace\<close> the trigger list and \<open>run_triggers\<close> the flag of the same name.
\<close>

record space =
  space_id :: nat
  handler_engine :: Engine
  is_temporary :: bool
  on_replace :: "trigger list"
  run_triggers :: bool

record txn_stmt =
  space :: "space option"
  old_tuple :: "tuple option"
  new_tuple :: "tuple option"
  engine_savepoint :: "nat option"
  row :: "xrow_header option"

text \<open>
  \<^verbatim>\<open>struct txn\<close>. \<open>n_rows\<close> and \<open>in_sub_stmt\<close> are C integers, read as \<open>int\<close>: they move by one
  per statement and stay far from the limits of their type.
\<close>

record txn =
  stmts :: "txn_stmt list"
  is_two_phase :: bool
  in_prepare :: bool
  tx_id :: "64 word"
  coordinator_id :: "32 word"
  n_rows :: int
  is_autocommit :: bool
  has_triggers :: bool
  in_sub_stmt :: int
  engine :: "Engine option"
  engine_tx :: "nat option"
  fiber_on_yield_run :: "nat option"
  fiber_on_stop_run :: "nat option"

datatype errcode =
    ER_ALREADY_PREPARED
  | ER_ILLEGAL_PARAMS
  | ER_CROSS_ENGINE_TRANSACTION
  | ER_SUB_STMT_MAX
  | ER_CHANGE_PREPARED
  | ER_WAL_IO
  | ER_UNSUPPORTED
  | ER_ACTIVE_TRANSACTION
  | ER_NO_ACTIVE_TRANSACTION
  | ER_COMMIT_IN_SUB_STMT
  | ER_COMMIT_BEFORE_PREPARE
  | ER_ROLLBACK_IN_SUB_STMT

datatype exn = ClientError errcode | LoggedError errcode | Abort

datatype event =
    MempoolAlloc
  | RegionCreate
  | EngineBegin Engine
  | EngineBeginStatement Engine
  | EnginePrepare Engine
  | EnginePrepareTwoPhase Engine
  | EngineCommit Engine int
  | EngineRollback Engine
  | EngineRollbackStatement Engine txn_stmt
  | TriggerRun_on_replace space
  | TriggerRun_on_commit
  | TriggerRun_on_rollback
  | WalWrite "xrow_header list"
  | SayWarn
  | RegionDestroy
  | MempoolFree
  | FiberGc
  | FiberReschedule

text \<open>
  The state one fiber sees. \<open>diag\<close> is the last-error slot. \<open>wal_attached\<close> is
  \<^verbatim>\<open>wal != NULL\<close>; \<open>wal_write_res\<close> and \<open>wal_write_end\<close> are the result the log writer
  returns for the next request and the reading of the clock when it returns; \<open>vclock_sum\<close>
  is \<^verbatim>\<open>vclock_sum(&recovery->vclock)\<close>. Readings of the clock are \<^verbatim>\<open>double\<close>s; they are kept
  as the reals they denote and no arithmetic is done on them: \<open>fp_diff_gt w a b c\<close> is the
  outcome of the test \<^verbatim>\<open>a - b > c\<close> as the machine computes it on \<^verbatim>\<open>double\<close>s.
\<close>

record world =
  fiber_txn :: "txn option"
  diag :: "exn option"
  trace :: "event list"
  wal_attached :: bool
  wal_write_res :: int
  wal_write_end :: real
  vclock_sum :: int
  recovery_lsn :: int
  recovery_replica_id :: nat
  ev_now :: real
  too_long_threshold :: real
  fp_diff_gt :: "real \<Rightarrow> real \<Rightarrow> real \<Rightarrow> bool"

type_synonym 'a result = "(exn + 'a) \<times> world"

definition TXN_SUB_STMT_MAX :: int where
  "TXN_SUB_STMT_MAX = 3"

definition emit :: "event \<Rightarrow> world \<Rightarrow> world" where
  "emit e w = w\<lparr>trace := trace w @ [e]\<rparr>"

definition fiber_set_txn :: "txn option \<Rightarrow> world \<Rightarrow> world" where
  "fiber_set_txn t w = w\<lparr>fiber_txn := t\<rparr>"

subsection \<open>Collaborators modelled from the specification\<close>

text \<open>
  Modelled from the spec: \<^verbatim>\<open>recovery_fill_lsn\<close> is not in the file. The specification says
  each row of the request is "stamped with a globally monotonic sequence number": the
  recovery position advances by one and the row receives it.
\<close>

definition recovery_fill_lsn :: "xrow_header \<Rightarrow> world \<Rightarrow> xrow_header \<times> world" where
  "recovery_fill_lsn r w =
     (let l = recovery_lsn w + 1 in (r\<lparr>row_lsn := l\<rparr>, w\<lparr>recovery_lsn := l\<rparr>))"

text \<open>
  Modelled from the spec: \<^verbatim>\<open>wal_write\<close> is not in the file. The specification gives the log
  writer as "submit(ordered rows) -> signature | failure (may suspend caller)": the request
  is handed over, the fiber is suspended, and when it runs again the clock has moved on and
  the writer's result is there.
\<close>

definition wal_write :: "xrow_header list \<Rightarrow> world \<Rightarrow> int \<times> world" where
  "wal_write req w =
     (wal_write_res w, (emit (WalWrite req) w)\<lparr>ev_now := wal_write_end w\<rparr>)"

subsection \<open>Statements\<close>

definition txn_add_redo :: "txn_stmt \<Rightarrow> request \<Rightarrow> txn_stmt" where
  "txn_add_redo stmt request =
     (case header request of
        Some h \<Rightarrow> stmt\<lparr>row := Some h\<rparr>
      | None \<Rightarrow>
          stmt\<lparr>row := Some \<lparr>row_type = req_type request, row_replica_id = 0, row_lsn = 0,
                             row_sync = 0, row_tm = 0, row_tx_id = 0, row_coordinator_id = 0,
                             row_bodycnt = int (length (encoded request)),
                             row_body = encoded request\<rparr>\<rparr>)"

definition txn_stmt_new :: "txn \<Rightarrow> txn" where
  "txn_stmt_new t =
     (let stmt = \<lparr>space = None, old_tuple = None, new_tuple = None,
                  engine_savepoint = None, row = None\<rparr>
      in t\<lparr>stmts := stmts t @ [stmt], in_sub_stmt := in_sub_stmt t + 1\<rparr>)"

definition txn_begin :: "bool \<Rightarrow> world \<Rightarrow> unit result" where
  "txn_begin autocommit w =
     (if fiber_txn w \<noteq> None then (Inl Abort, w)
      else
        let w1 = emit MempoolAlloc w;
            t = \<lparr>stmts = [], is_two_phase = False, in_prepare = False,
                 tx_id = - 1, coordinator_id = - 1, n_rows = 0,
                 is_autocommit = autocommit, has_triggers = False, in_sub_stmt = 0,
                 engine = None, engine_tx = None,
                 fiber_on_yield_run = None, fiber_on_stop_run = None\<rparr>;
            w2 = emit RegionCreate w1
        in (Inr (), fiber_set_txn (Some t) w2))"

definition txn_begin_two_phase :: "64 word \<Rightarrow> 32 word \<Rightarrow> world \<Rightarrow> unit result" where
  "txn_begin_two_phase txid coord w =
     (case txn_begin False w of
        (Inl e, w1) \<Rightarrow> (Inl e, w1)
      | (Inr _, w1) \<Rightarrow>
          (case fiber_txn w1 of
             None \<Rightarrow> (Inl Abort, w1)
           | Some t \<Rightarrow>
               (Inr (), fiber_set_txn
                  (Some (t\<lparr>tx_id := txid, coordinator_id := coord, is_two_phase := True\<rparr>)) w1)))"

definition txn_prepare_two_phase :: "xrow_header \<Rightarrow> world \<Rightarrow> unit result" where
  "txn_prepare_two_phase hdr w =
     (case fiber_txn w of
        None \<Rightarrow> (Inl Abort, w)
      | Some t \<Rightarrow>
          if in_prepare t then (Inl (ClientError ER_ALREADY_PREPARED), w)
          else if \<not> is_two_phase t then (Inl (ClientError ER_ILLEGAL_PARAMS), w)
          else if row_tx_id hdr \<noteq> tx_id t then (Inl Abort, w)
          else if row_coordinator_id hdr \<noteq> coordinator_id t then (Inl Abort, w)
          else
            let w1 = fiber_set_txn (Some (t\<lparr>in_prepare := True\<rparr>)) w
            in (case engine t of
                  None \<Rightarrow> (Inr (), w1)
                | Some e \<Rightarrow> (Inr (), emit (EnginePrepareTwoPhase e) w1)))"

definition txn_begin_in_engine :: "Engine \<Rightarrow> world \<Rightarrow> unit result" where
  "txn_begin_in_engine eng w =
     (case fiber_txn w of
        None \<Rightarrow> (Inl Abort, w)
      | Some t \<Rightarrow>
          (case engine t of
             None \<Rightarrow>
               if stmts t \<noteq> [] then (Inl Abort, w)
               else (Inr (), emit (EngineBegin eng)
                               (fiber_set_txn (Some (t\<lparr>engine := Some eng\<rparr>)) w))
           | Some e \<Rightarrow>
               if e \<noteq> eng then (Inl (ClientError ER_CROSS_ENGINE_TRANSACTION), w)
               else (Inr (), w)))"

definition txn_begin_stmt :: "space \<Rightarrow> world \<Rightarrow> unit result" where
  "txn_begin_stmt sp w =
     (let r = (case fiber_txn w of
                 None \<Rightarrow> txn_begin True w
               | Some t \<Rightarrow>
                   if in_sub_stmt t > TXN_SUB_STMT_MAX then
                     (Inl (ClientError ER_SUB_STMT_MAX), w)
                   else if in_prepare t then
                     (if \<not> is_two_phase t then (Inl Abort, w)
                      else (Inl (ClientError ER_CHANGE_PREPARED), w))
                   else (Inr (), w))
      in case r of
           (Inl e, w1) \<Rightarrow> (Inl e, w1)
         | (Inr _, w1) \<Rightarrow>
             (case txn_begin_in_engine (handler_engine sp) w1 of
                (Inl e, w2) \<Rightarrow> (Inl e, w2)
              | (Inr _, w2) \<Rightarrow>
                  (case fiber_txn w2 of
                     None \<Rightarrow> (Inl Abort, w2)
                   | Some t \<Rightarrow>
                       let t1 = txn_stmt_new t;
                           t2 = t1\<lparr>stmts := butlast (stmts t1) @
                                                [(last (stmts t1))\<lparr>space := Some sp\<rparr>]\<rparr>
                       in (Inr (), emit (EngineBeginStatement (handler_engine sp))
                                     (fiber_set_txn (Some t2) w2)))))"

subsection \<open>Rollback\<close>

definition txn_rollback :: "world \<Rightarrow> world" where
  "txn_rollback w =
     (case fiber_txn w of
        None \<Rightarrow> w
      | Some t \<Rightarrow>
          let w1 = (if has_triggers t then emit TriggerRun_on_rollback w else w);
              w2 = (case engine t of None \<Rightarrow> w1 | Some e \<Rightarrow> emit (EngineRollback e) w1);
              w3 = emit RegionDestroy w2;
              w4 = emit MempoolFree w3;
              w5 = emit FiberGc w4
          in fiber_set_txn None w5)"

definition txn_rollback_stmt :: "world \<Rightarrow> unit result" where
  "txn_rollback_stmt w =
     (case fiber_txn w of
        None \<Rightarrow> (Inr (), w)
      | Some t \<Rightarrow>
          if is_autocommit t then (Inr (), txn_rollback w)
          else if in_sub_stmt t = 0 then (Inr (), w)
          else if stmts t = [] then (Inl Abort, w)
          else
            (case engine t of
               None \<Rightarrow> (Inl Abort, w)
             | Some e \<Rightarrow>
                 let stmt = last (stmts t);
                     w1 = emit (EngineRollbackStatement e stmt) w
                 in if row stmt \<noteq> None \<and> n_rows t - 1 < 0 then (Inl Abort, w1)
                    else
                      let t1 = (if row stmt \<noteq> None
                                then t\<lparr>stmts := butlast (stmts t) @ [stmt\<lparr>row := None\<rparr>],
                                       n_rows := n_rows t - 1\<rparr>
                                else t);
                          t2 = t1\<lparr>in_sub_stmt := in_sub_stmt t1 - 1\<rparr>
                      in (Inr (), fiber_set_txn (Some t2) w1)))"

subsection \<open>Commit\<close>

text \<open>
  The loop of \<^verbatim>\<open>txn_write_to_wal\<close> over the statements: a statement without a row is
  skipped; the row of any other is stamped in place and appended to the request.
\<close>

fun wal_request_fill ::
  "txn_stmt list \<Rightarrow> xrow_header list \<Rightarrow> world \<Rightarrow> txn_stmt list \<times> xrow_header list \<times> world" where
  "wal_request_fill [] req w = ([], req, w)"
| "wal_request_fill (stmt # rest) req w =
     (case row stmt of
        None \<Rightarrow>
          (case wal_request_fill rest req w of
             (rest', req', w') \<Rightarrow> (stmt # rest', req', w'))
      | Some r \<Rightarrow>
          (case recovery_fill_lsn r w of
             (r1, w1) \<Rightarrow>
               let r2 = r1\<lparr>row_tm := ev_now w1\<rparr> in
               (case wal_request_fill rest (req @ [r2]) w1 of
                  (rest', req', w') \<Rightarrow> (stmt\<lparr>row := Some r2\<rparr> # rest', req', w'))))"

definition txn_write_to_wal :: "world \<Rightarrow> int result" where
  "txn_write_to_wal w =
     (case fiber_txn w of
        None \<Rightarrow> (Inl Abort, w)
      | Some t \<Rightarrow>
          if \<not> n_rows t > 0 then (Inl Abort, w)
          else
            (case wal_request_fill (stmts t) [] w of
               (stmts', req, w1) \<Rightarrow>
                 let w2 = fiber_set_txn (Some (t\<lparr>stmts := stmts'\<rparr>)) w1 in
                 if int (length req) \<noteq> n_rows t then (Inl Abort, w2)
                 else
                   let start = ev_now w2;
                       (res, w3) = (if \<not> wal_attached w2 then (vclock_sum w2, w2)
                                    else wal_write req w2);
                       stop = ev_now w3;
                       w4 = (if fp_diff_gt w3 stop start (too_long_threshold w3)
                             then emit SayWarn w3 else w3)
                   in if res < 0 then
                        (Inl (LoggedError ER_WAL_IO), emit FiberReschedule (txn_rollback w4))
                      else (Inr res, w4)))"

definition txn_commit :: "world \<Rightarrow> unit result" where
  "txn_commit w =
     (case fiber_txn w of
        None \<Rightarrow> (Inl Abort, w)
      | Some t \<Rightarrow>
          if \<not> (stmts t = [] \<or> engine t \<noteq> None) then (Inl Abort, w)
          else if \<not> (\<not> is_two_phase t \<or> in_prepare t) then (Inl Abort, w)
          else
            let r = (case engine t of
                       None \<Rightarrow> (Inr (), w)
                     | Some e \<Rightarrow>
                         let w1 = (if \<not> is_two_phase t then emit (EnginePrepare e) w else w);
                             s = (if n_rows t > 0 then txn_write_to_wal w1
                                  else (Inr (- 1), w1))
                         in (case s of
                               (Inl x, w2) \<Rightarrow> (Inl x, w2)
                             | (Inr signature, w2) \<Rightarrow>
                                 let w3 = (if has_triggers t then emit TriggerRun_on_commit w2
                                           else w2)
                                 in (Inr (), emit (EngineCommit e signature) w3)))
            in (case r of
                  (Inl x, w4) \<Rightarrow> (Inl x, w4)
                | (Inr _, w4) \<Rightarrow>
                    (Inr (), fiber_set_txn None
                               (emit FiberGc (emit MempoolFree (emit RegionDestroy w4))))))"

definition txn_commit_stmt :: "request \<Rightarrow> world \<Rightarrow> unit result" where
  "txn_commit_stmt request w =
     (case fiber_txn w of
        None \<Rightarrow> (Inl Abort, w)
      | Some t \<Rightarrow>
          if \<not> in_sub_stmt t > 0 then (Inl Abort, w)
          else if in_prepare t then (Inl Abort, w)
          else if stmts t = [] then (Inl Abort, w)
          else
            (case space (last (stmts t)) of
               None \<Rightarrow> (Inl Abort, w)
             | Some sp \<Rightarrow>
                 let stmt = last (stmts t);
                     t1 = (if \<not> is_temporary sp
                           then t\<lparr>stmts := butlast (stmts t) @ [txn_add_redo stmt request],
                                  n_rows := n_rows t + 1\<rparr>
                           else t);
                     w1 = (if on_replace sp \<noteq> [] \<and> run_triggers sp \<and>
                              (old_tuple stmt \<noteq> None \<or> new_tuple stmt \<noteq> None)
                           then emit (TriggerRun_on_replace sp) w else w);
                     t2 = t1\<lparr>in_sub_stmt := in_sub_stmt t1 - 1\<rparr>;
                     w2 = fiber_set_txn (Some t2) w1
                 in if is_autocommit t2 \<and> in_sub_stmt t2 = 0 then txn_commit w2
                    else (Inr (), w2)))"

definition txn_check_autocommit :: "world \<Rightarrow> unit result" where
  "txn_check_autocommit w =
     (case fiber_txn w of
        None \<Rightarrow> (Inl Abort, w)
      | Some t \<Rightarrow>
          if is_autocommit t = False then (Inl (ClientError ER_UNSUPPORTED), w)
          else (Inr (), w))"

subsection \<open>The entry points of the C interface\<close>

text \<open>
  Each entry point returns \<open>0\<close> or \<open>-1\<close>. An exception caught at the boundary, like an error
  given to \<^verbatim>\<open>diag_set\<close>, is left in the last-error slot \<open>diag\<close>. \<open>Abort\<close> is not an
  exception: it passes through.
\<close>

definition diag_set :: "exn \<Rightarrow> world \<Rightarrow> world" where
  "diag_set e w = w\<lparr>diag := Some e\<rparr>"

definition box_txn :: "world \<Rightarrow> bool" where
  "box_txn w = (fiber_txn w \<noteq> None)"

definition box_txn_begin :: "world \<Rightarrow> int result" where
  "box_txn_begin w =
     (if fiber_txn w \<noteq> None then (Inr (- 1), diag_set (ClientError ER_ACTIVE_TRANSACTION) w)
      else
        (case txn_begin False w of
           (Inl Abort, w1) \<Rightarrow> (Inl Abort, w1)
         | (Inl e, w1) \<Rightarrow> (Inr (- 1), diag_set e w1)
         | (Inr _, w1) \<Rightarrow> (Inr 0, w1)))"

definition box_txn_begin_two_phase :: "64 word \<Rightarrow> 32 word \<Rightarrow> world \<Rightarrow> int result" where
  "box_txn_begin_two_phase txid coord w =
     (if fiber_txn w \<noteq> None then (Inr (- 1), diag_set (ClientError ER_ACTIVE_TRANSACTION) w)
      else
        (case txn_begin_two_phase txid coord w of
           (Inl Abort, w1) \<Rightarrow> (Inl Abort, w1)
         | (Inl e, w1) \<Rightarrow> (Inr (- 1), diag_set e w1)
         | (Inr _, w1) \<Rightarrow> (Inr 0, w1)))"

definition box_txn_prepare_two_phase :: "world \<Rightarrow> int result" where
  "box_txn_prepare_two_phase w =
     (case fiber_txn w of
        None \<Rightarrow> (Inr (- 1), diag_set (ClientError ER_NO_ACTIVE_TRANSACTION) w)
      | Some t \<Rightarrow>
          let hdr = \<lparr>row_type = IPROTO_PREPARE, row_replica_id = recovery_replica_id w,
                     row_lsn = 0, row_sync = 0, row_tm = 0, row_tx_id = tx_id t,
                     row_coordinator_id = coordinator_id t, row_bodycnt = 0, row_body = []\<rparr>
          in (case txn_prepare_two_phase hdr w of
                (Inl Abort, w1) \<Rightarrow> (Inl Abort, w1)
              | (Inl e, w1) \<Rightarrow> (Inr (- 1), diag_set e w1)
              | (Inr _, w1) \<Rightarrow> (Inr 0, w1)))"

definition box_txn_commit :: "world \<Rightarrow> int result" where
  "box_txn_commit w =
     (case fiber_txn w of
        None \<Rightarrow> (Inr 0, w)
      | Some t \<Rightarrow>
          if in_sub_stmt t \<noteq> 0 then
            (Inr (- 1), diag_set (ClientError ER_COMMIT_IN_SUB_STMT) w)
          else if is_two_phase t \<and> \<not> in_prepare t then
            (Inr (- 1), diag_set (ClientError ER_COMMIT_BEFORE_PREPARE) w)
          else
            (case txn_commit w of
               (Inl Abort, w1) \<Rightarrow> (Inl Abort, w1)
             | (Inl e, w1) \<Rightarrow> (Inr (- 1), diag_set e (txn_rollback w1))
             | (Inr _, w1) \<Rightarrow> (Inr 0, w1)))"

definition box_txn_rollback :: "world \<Rightarrow> int result" where
  "box_txn_rollback w =
     (case fiber_txn w of
        Some t \<Rightarrow>
          if in_sub_stmt t \<noteq> 0 then
            (Inr (- 1), diag_set (ClientError ER_ROLLBACK_IN_SUB_STMT) w)
          else (Inr 0, txn_rollback w)
      | None \<Rightarrow> (Inr 0, txn_rollback w))"

subsection \<open>The caller of a statement\<close>

text \<open>
  Modelled from the spec: the engine handler that executes a request between
  \<^verbatim>\<open>txn_begin_stmt\<close> and \<^verbatim>\<open>txn_commit_stmt\<close> is not in the file. The specification gives a
  statement a "previous value" and a "new value", both optional, which the engine fills in:
  the handler stores them in the statement that was opened last.
\<close>

definition engine_set_tuples :: "tuple option \<Rightarrow> tuple option \<Rightarrow> world \<Rightarrow> world" where
  "engine_set_tuples old new w =
     (case fiber_txn w of
        None \<Rightarrow> w
      | Some t \<Rightarrow>
          if stmts t = [] then w
          else fiber_set_txn
                 (Some (t\<lparr>stmts := butlast (stmts t) @
                                      [(last (stmts t))\<lparr>old_tuple := old, new_tuple := new\<rparr>]\<rparr>)) w)"

text \<open>
  One statement as a caller runs it: begin the statement on the space, let the engine
  execute it, commit the statement with the request. A list of statements is run in order
  and stops at the first failure.
\<close>

type_synonym stmt_call = "space \<times> request \<times> tuple option \<times> tuple option"

definition exec_stmt :: "stmt_call \<Rightarrow> world \<Rightarrow> unit result" where
  "exec_stmt c w =
     (case c of (sp, rq, old, new) \<Rightarrow>
        (case txn_begin_stmt sp w of
           (Inl e, w1) \<Rightarrow> (Inl e, w1)
         | (Inr _, w1) \<Rightarrow> txn_commit_stmt rq (engine_set_tuples old new w1)))"

fun exec_stmts :: "stmt_call list \<Rightarrow> world \<Rightarrow> unit result" where
  "exec_stmts [] w = (Inr (), w)"
| "exec_stmts (c # cs) w =
     (case exec_stmt c w of
        (Inl e, w1) \<Rightarrow> (Inl e, w1)
      | (Inr _, w1) \<Rightarrow> exec_stmts cs w1)"

subsection \<open>Properties of a transaction\<close>

text \<open>The row of the redo log a committed statement gets from its request.\<close>

definition redo_row :: "request \<Rightarrow> xrow_header" where
  "redo_row rq =
     (case header rq of
        Some h \<Rightarrow> h
      | None \<Rightarrow> \<lparr>row_type = req_type rq, row_replica_id = 0, row_lsn = 0,
                  row_sync = 0, row_tm = 0, row_tx_id = 0, row_coordinator_id = 0,
                  row_bodycnt = int (length (encoded rq)), row_body = encoded rq\<rparr>)"

text \<open>\<open>n_rows\<close> counts the statements that carry a row.\<close>

definition rows_consistent :: "txn \<Rightarrow> bool" where
  "rows_consistent t = (n_rows t = int (length [s \<leftarrow> stmts t. row s \<noteq> None]))"

text \<open>A row without the two stamps it receives when the request is built.\<close>

definition unstamp :: "xrow_header \<Rightarrow> xrow_header" where
  "unstamp r = r\<lparr>row_lsn := 0, row_tm := 0\<rparr>"

fun is_on_replace :: "event \<Rightarrow> bool" where
  "is_on_replace (TriggerRun_on_replace sp) = True"
| "is_on_replace _ = False"

fun is_wal_write :: "event \<Rightarrow> bool" where
  "is_wal_write (WalWrite req) = True"
| "is_wal_write _ = False"

fun is_engine_commit :: "event \<Rightarrow> bool" where
  "is_engine_commit (EngineCommit e sig) = True"
| "is_engine_commit _ = False"

text \<open>The events of a rollback of transaction \<open>t\<close>, in order.\<close>

definition rollback_events :: "txn \<Rightarrow> event list" where
  "rollback_events t =
     (if has_triggers t then [TriggerRun_on_rollback] else []) @
     (case engine t of None \<Rightarrow> [] | Some e \<Rightarrow> [EngineRollback e]) @
     [RegionDestroy, MempoolFree, FiberGc]"

text \<open>A statement whose target is not temporary and that saw or produced a value.\<close>

definition durable_change :: "txn_stmt \<Rightarrow> bool" where
  "durable_change s =
     ((case space s of None \<Rightarrow> False | Some sp \<Rightarrow> \<not> is_temporary sp) \<and>
      (old_tuple s \<noteq> None \<or> new_tuple s \<noteq> None))"

subsection \<open>Example states\<close>

definition world0 :: world where
  "world0 = \<lparr>fiber_txn = None, diag = None, trace = [], wal_attached = True,
             wal_write_res = 1, wal_write_end = 0, vclock_sum = 0, recovery_lsn = 0,
             recovery_replica_id = 1, ev_now = 0, too_long_threshold = 1,
             fp_diff_gt = (\<lambda>a b c. False)\<rparr>"

definition memtx_space :: space where
  "memtx_space = \<lparr>space_id = 512, handler_engine = 0, is_temporary = False,
                  on_replace = [7], run_triggers = True\<rparr>"

definition temp_space :: space where
  "temp_space = \<lparr>space_id = 513, handler_engine = 0, is_temporary = True,
                 on_replace = [], run_triggers = True\<rparr>"

definition vinyl_space :: space where
  "vinyl_space = \<lparr>space_id = 514, handler_engine = 1, is_temporary = False,
                  on_replace = [], run_triggers = True\<rparr>"

definition request0 :: request where
  "request0 = \<lparr>header = None, req_type = IPROTO_REQUEST 2, encoded = [''k'']\<rparr>"

definition request1 :: request where
  "request1 = \<lparr>header = None, req_type = IPROTO_REQUEST 5, encoded = [''d'']\<rparr>"

text \<open>An open statement on \<open>memtx_space\<close> that replaced tuple 1 by tuple 2.\<close>

definition stmt0 :: txn_stmt where
  "stmt0 = \<lparr>space = Some memtx_space, old_tuple = Some 1, new_tuple = Some 2,
            engine_savepoint = None, row = None\<rparr>"

text \<open>
  A transaction begun with \<^verbatim>\<open>box_txn_begin\<close>, bound to engine 0, with \<open>stmt0\<close> open.
\<close>

definition txn0 :: txn where
  "txn0 = \<lparr>stmts = [stmt0], is_two_phase = False, in_prepare = False,
           tx_id = - 1, coordinator_id = - 1, n_rows = 0,
           is_autocommit = False, has_triggers = True, in_sub_stmt = 1,
           engine = Some 0, engine_tx = None,
           fiber_on_yield_run = None, fiber_on_stop_run = None\<rparr>"

text \<open>The same transaction with no statement open, begun in two-phase mode.\<close>

definition txn_2pc :: txn where
  "txn_2pc = txn0\<lparr>stmts := [], in_sub_stmt := 0, is_two_phase := True,
                  tx_id := 42, coordinator_id := 7\<rparr>"

definition txn_prepared :: txn where
  "txn_prepared = txn_2pc\<lparr>in_prepare := True\<rparr>"

definition world_open :: world where
  "world_open = world0\<lparr>fiber_txn := Some txn0\<rparr>"

definition world_2pc :: world where
  "world_2pc = world0\<lparr>fiber_txn := Some txn_2pc\<rparr>"

definition world_prepared :: world where
  "world_prepared = world0\<lparr>fiber_txn := Some txn_prepared\<rparr>"

text \<open>
  A transaction with three statements and no statement open: the first and the last carry a
  row, the one between them carries none.
\<close>

definition stmt_done :: txn_stmt where
  "stmt_done = stmt0\<lparr>row := Some (redo_row request0)\<rparr>"

definition stmt_void :: txn_stmt where
  "stmt_void = stmt0\<lparr>old_tuple := None, new_tuple := None\<rparr>"

definition stmt_last :: txn_stmt where
  "stmt_last = stmt0\<lparr>row := Some (redo_row request1)\<rparr>"

definition txn_rows :: txn where
  "txn_rows = txn0\<lparr>stmts := [stmt_done, stmt_void, stmt_last], n_rows := 2,
                   in_sub_stmt := 0\<rparr>"

definition world_rows :: world where
  "world_rows = world0\<lparr>fiber_txn := Some txn_rows\<rparr>"

text \<open>The same state with a log writer that fails.\<close>

definition world_wal_fail :: world where
  "world_wal_fail = world_rows\<lparr>wal_write_res := - 1\<rparr>"

text \<open>The same transaction with one statement still open.\<close>

definition txn_nested :: txn where
  "txn_nested = txn_rows\<lparr>in_sub_stmt := 1\<rparr>"

definition world_nested :: world where
  "world_nested = world0\<lparr>fiber_txn := Some txn_nested\<rparr>"

text \<open>The depth of open statements is at most one more than \<open>TXN_SUB_STMT_MAX\<close>.\<close>

definition depth_bounded :: "world \<Rightarrow> bool" where
  "depth_bounded w =
     (case fiber_txn w of None \<Rightarrow> True | Some t \<Rightarrow> in_sub_stmt t \<le> TXN_SUB_STMT_MAX + 1)"

text \<open>The transaction of the fiber, if there is one, counts its rows correctly.\<close>

definition rows_ok :: "world \<Rightarrow> bool" where
  "rows_ok w = (case fiber_txn w of None \<Rightarrow> True | Some t \<Rightarrow> rows_consistent t)"

text \<open>The statement record that a statement run by \<open>exec_stmt\<close> leaves in the sequence.\<close>

definition committed_stmt :: "stmt_call \<Rightarrow> txn_stmt" where
  "committed_stmt c =
     (case c of (sp, rq, old, new) \<Rightarrow>
        \<lparr>space = Some sp, old_tuple = old, new_tuple = new, engine_savepoint = None,
         row = (if is_temporary sp then None else Some (redo_row rq))\<rparr>)"

text \<open>A transaction begun by \<^verbatim>\<open>box_txn_begin\<close>, and the same with three statements open.\<close>

definition world_begun :: world where
  "world_begun = snd (box_txn_begin world0)"

definition world_depth3 :: world where
  "world_depth3 =
     snd (txn_begin_stmt memtx_space
       (snd (txn_begin_stmt memtx_space
         (snd (txn_begin_stmt memtx_space world_begun)))))"




text \<open>One statement that found nothing to change, run on a space that is not temporary.\<close>

definition world_no_change :: world where
  "world_no_change = snd (exec_stmts [(memtx_space, request0, None, None)] world_begun)"

text \<open>Four statements open: one more than \<open>TXN_SUB_STMT_MAX\<close>.\<close>

definition world_depth4 :: world where
  "world_depth4 = snd (txn_begin_stmt memtx_space world_depth3)"

text \<open>
  Three statements to run one after another: the second is on a temporary space, the third
  finds nothing to change.
\<close>

definition calls0 :: "stmt_call list" where
  "calls0 = [(memtx_space, request0, Some 1, None),
             (temp_space, request1, None, Some 2),
             (memtx_space, request1, None, None)]"

section \<open>Properties\<close>

subsection \<open>The request loop\<close>

lemma wal_request_fill_world:
  "wal_request_fill ss req w = (ss', req', w') \<Longrightarrow>
     w' = w\<lparr>recovery_lsn := recovery_lsn w + int (length [s \<leftarrow> ss. row s \<noteq> None])\<rparr>"
proof (induction ss arbitrary: req w ss' req' w')
  case Nil
  then show ?case by simp
next
  case (Cons s ss)
  show ?case
  proof (cases "row s")
    case None
    with Cons.prems obtain r1 where "wal_request_fill ss req w = (r1, req', w')"
      by (auto split: prod.splits)
    from Cons.IH[OF this] None show ?thesis by simp
  next
    case (Some r)
    with Cons.prems obtain r1 rq where
      "wal_request_fill ss rq (w\<lparr>recovery_lsn := recovery_lsn w + 1\<rparr>) = (r1, req', w')"
      by (auto simp: recovery_fill_lsn_def Let_def split: prod.splits)
    from Cons.IH[OF this] Some show ?thesis by simp
  qed
qed

lemma wal_request_fill_rows:
  "wal_request_fill ss req w = (ss', req', w') \<Longrightarrow>
     map unstamp req' = map unstamp req @ map unstamp (List.map_filter row ss)"
proof (induction ss arbitrary: req w ss' req' w')
  case Nil
  then show ?case by simp
next
  case (Cons s ss)
  show ?case
  proof (cases "row s")
    case None
    with Cons.prems obtain r1 where "wal_request_fill ss req w = (r1, req', w')"
      by (auto split: prod.splits)
    from Cons.IH[OF this] None show ?thesis by simp
  next
    case (Some r)
    with Cons.prems obtain r1 w1 where
      "wal_request_fill ss (req @ [r\<lparr>row_lsn := recovery_lsn w + 1, row_tm := ev_now w\<rparr>]) w1
         = (r1, req', w')"
      by (auto simp: recovery_fill_lsn_def Let_def split: prod.splits)
    from Cons.IH[OF this] Some show ?thesis
      by (simp add: unstamp_def)
  qed
qed

lemma wal_request_fill_length:
  "wal_request_fill ss req w = (ss', req', w') \<Longrightarrow>
     length req' = length req + length [s \<leftarrow> ss. row s \<noteq> None]"
proof (induction ss arbitrary: req w ss' req' w')
  case Nil
  then show ?case by simp
next
  case (Cons s ss)
  show ?case
  proof (cases "row s")
    case None
    with Cons.prems obtain r1 where "wal_request_fill ss req w = (r1, req', w')"
      by (auto split: prod.splits)
    from Cons.IH[OF this] None show ?thesis by simp
  next
    case (Some r)
    with Cons.prems obtain r1 rq w1 where
      "wal_request_fill ss (req @ [rq]) w1 = (r1, req', w')"
      by (auto simp: Let_def split: prod.splits)
    from Cons.IH[OF this] Some show ?thesis by simp
  qed
qed

subsection \<open>Misuse of the entry points\<close>

text \<open>
  C10. The commit entry point on a fiber with no active transaction returns \<open>0\<close> and changes
  nothing; the prepare entry point in the same situation returns \<open>-1\<close> and reports
  \<open>ER_NO_ACTIVE_TRANSACTION\<close>.
\<close>

theorem box_txn_commit_without_txn:
  assumes "fiber_txn w = None"
  shows "box_txn_commit w = (Inr 0, w) \<and>
         box_txn_prepare_two_phase w =
           (Inr (- 1), w\<lparr>diag := Some (ClientError ER_NO_ACTIVE_TRANSACTION)\<rparr>)"
  using assms by (simp add: box_txn_commit_def box_txn_prepare_two_phase_def diag_set_def)

theorem box_txn_commit_without_txn_witness:
  "fiber_txn world0 = None \<and> box_txn_commit world0 = (Inr 0, world0) \<and>
   box_txn_prepare_two_phase world0 =
     (Inr (- 1), world0\<lparr>diag := Some (ClientError ER_NO_ACTIVE_TRANSACTION)\<rparr>)"
  using box_txn_commit_without_txn[of world0] by (simp add: world0_def)

text \<open>
  C6. Each of the four misuses is rejected with an error of its own, and nothing but the
  last-error slot changes, so the transaction stays active: preparing a prepared
  transaction (\<open>ER_ALREADY_PREPARED\<close>), committing with a statement open
  (\<open>ER_COMMIT_IN_SUB_STMT\<close>), committing a two-phase transaction that is not prepared
  (\<open>ER_COMMIT_BEFORE_PREPARE\<close>; when a statement is open as well, the earlier check
  answers with \<open>ER_COMMIT_IN_SUB_STMT\<close>), rolling back with a statement open
  (\<open>ER_ROLLBACK_IN_SUB_STMT\<close>).
\<close>

theorem misuse_rejected:
  assumes "fiber_txn w = Some t"
  shows "(in_prepare t \<longrightarrow>
            box_txn_prepare_two_phase w =
              (Inr (- 1), w\<lparr>diag := Some (ClientError ER_ALREADY_PREPARED)\<rparr>)) \<and>
         (in_sub_stmt t \<noteq> 0 \<longrightarrow>
            box_txn_commit w =
              (Inr (- 1), w\<lparr>diag := Some (ClientError ER_COMMIT_IN_SUB_STMT)\<rparr>)) \<and>
         (is_two_phase t \<and> \<not> in_prepare t \<longrightarrow>
            box_txn_commit w =
              (Inr (- 1),
               w\<lparr>diag := Some (ClientError (if in_sub_stmt t \<noteq> 0 then ER_COMMIT_IN_SUB_STMT
                                               else ER_COMMIT_BEFORE_PREPARE))\<rparr>)) \<and>
         (in_sub_stmt t \<noteq> 0 \<longrightarrow>
            box_txn_rollback w =
              (Inr (- 1), w\<lparr>diag := Some (ClientError ER_ROLLBACK_IN_SUB_STMT)\<rparr>)) \<and>
         distinct [ER_ALREADY_PREPARED, ER_COMMIT_IN_SUB_STMT, ER_COMMIT_BEFORE_PREPARE,
                   ER_ROLLBACK_IN_SUB_STMT]"
  using assms
  by (simp add: box_txn_commit_def box_txn_prepare_two_phase_def box_txn_rollback_def
      txn_prepare_two_phase_def diag_set_def)

theorem misuse_rejected_witness:
  "fiber_txn world_prepared = Some txn_prepared \<and> in_prepare txn_prepared \<and>
   box_txn_prepare_two_phase world_prepared =
     (Inr (- 1), world_prepared\<lparr>diag := Some (ClientError ER_ALREADY_PREPARED)\<rparr>) \<and>
   fiber_txn world_open = Some txn0 \<and> in_sub_stmt txn0 \<noteq> 0 \<and>
   box_txn_commit world_open =
     (Inr (- 1), world_open\<lparr>diag := Some (ClientError ER_COMMIT_IN_SUB_STMT)\<rparr>) \<and>
   box_txn_rollback world_open =
     (Inr (- 1), world_open\<lparr>diag := Some (ClientError ER_ROLLBACK_IN_SUB_STMT)\<rparr>) \<and>
   fiber_txn world_2pc = Some txn_2pc \<and>
   in_sub_stmt txn_2pc = 0 \<and> is_two_phase txn_2pc \<and> \<not> in_prepare txn_2pc \<and>
   box_txn_commit world_2pc =
     (Inr (- 1), world_2pc\<lparr>diag := Some (ClientError ER_COMMIT_BEFORE_PREPARE)\<rparr>)"
  using misuse_rejected[of world_prepared txn_prepared]
    misuse_rejected[of world_open txn0]
    misuse_rejected[of world_2pc txn_2pc]
  by (simp add: world_prepared_def world_open_def world_2pc_def txn_prepared_def
      txn_2pc_def txn0_def world0_def)

subsection \<open>One engine per transaction\<close>

lemma txn_begin_stmt_bound:
  assumes "fiber_txn w = Some t" and "engine t = Some (handler_engine sp)"
    and "in_sub_stmt t \<le> TXN_SUB_STMT_MAX" and "\<not> in_prepare t"
  shows "txn_begin_stmt sp w =
           (Inr (),
            w\<lparr>fiber_txn :=
                 Some (t\<lparr>stmts := stmts t @
                                    [\<lparr>space = Some sp, old_tuple = None, new_tuple = None,
                                      engine_savepoint = None, row = None\<rparr>],
                         in_sub_stmt := in_sub_stmt t + 1\<rparr>),
               trace := trace w @ [EngineBeginStatement (handler_engine sp)]\<rparr>)"
  using assms
  by (simp add: txn_begin_stmt_def txn_begin_in_engine_def txn_stmt_new_def Let_def
      emit_def fiber_set_txn_def)

text \<open>
  C5. When a transaction is bound to engine \<open>a\<close>, \<^verbatim>\<open>txn_begin_stmt\<close> on a space of another
  engine fails and returns the state it was given: engine, statement sequence and depth are
  the ones before the call. The error is \<open>ER_CROSS_ENGINE_TRANSACTION\<close> when the two earlier
  checks of the function pass (depth within the limit, transaction not prepared); a
  statement on any space of engine \<open>a\<close> then begins, exactly as it would have before the
  rejected call.
\<close>

theorem cross_engine_rejected:
  assumes "fiber_txn w = Some t" and "engine t = Some a" and "handler_engine sp \<noteq> a"
  shows "snd (txn_begin_stmt sp w) = w \<and>
         (\<exists>x. fst (txn_begin_stmt sp w) = Inl x) \<and>
         (in_sub_stmt t \<le> TXN_SUB_STMT_MAX \<and> \<not> in_prepare t \<longrightarrow>
            fst (txn_begin_stmt sp w) = Inl (ClientError ER_CROSS_ENGINE_TRANSACTION) \<and>
            (\<forall>sp'. handler_engine sp' = a \<longrightarrow>
               txn_begin_stmt sp' (snd (txn_begin_stmt sp w)) =
                 (Inr (),
                  w\<lparr>fiber_txn :=
                       Some (t\<lparr>stmts := stmts t @
                                          [\<lparr>space = Some sp', old_tuple = None,
                                            new_tuple = None, engine_savepoint = None,
                                            row = None\<rparr>],
                               in_sub_stmt := in_sub_stmt t + 1\<rparr>),
                     trace := trace w @ [EngineBeginStatement a]\<rparr>)))"
proof -
  have intact: "snd (txn_begin_stmt sp w) = w"
    using assms by (simp add: txn_begin_stmt_def txn_begin_in_engine_def)
  have fails: "\<exists>x. fst (txn_begin_stmt sp w) = Inl x"
    using assms by (simp add: txn_begin_stmt_def txn_begin_in_engine_def)
  have kind: "fst (txn_begin_stmt sp w) = Inl (ClientError ER_CROSS_ENGINE_TRANSACTION)"
    if "in_sub_stmt t \<le> TXN_SUB_STMT_MAX" "\<not> in_prepare t"
    using assms that by (simp add: txn_begin_stmt_def txn_begin_in_engine_def)
  have usable: "txn_begin_stmt sp' (snd (txn_begin_stmt sp w)) =
                 (Inr (),
                  w\<lparr>fiber_txn :=
                       Some (t\<lparr>stmts := stmts t @
                                          [\<lparr>space = Some sp', old_tuple = None,
                                            new_tuple = None, engine_savepoint = None,
                                            row = None\<rparr>],
                               in_sub_stmt := in_sub_stmt t + 1\<rparr>),
                     trace := trace w @ [EngineBeginStatement a]\<rparr>)"
    if "in_sub_stmt t \<le> TXN_SUB_STMT_MAX" "\<not> in_prepare t" "handler_engine sp' = a" for sp'
    unfolding intact
    using txn_begin_stmt_bound[OF assms(1) _ that(1,2), of sp'] assms(2) that(3) by simp
  from intact fails kind usable show ?thesis by blast
qed

theorem cross_engine_rejected_witness:
  "fiber_txn world_open = Some txn0 \<and> engine txn0 = Some 0 \<and>
   handler_engine vinyl_space \<noteq> 0 \<and> in_sub_stmt txn0 \<le> TXN_SUB_STMT_MAX \<and>
   \<not> in_prepare txn0 \<and> handler_engine memtx_space = 0 \<and>
   txn_begin_stmt vinyl_space world_open =
     (Inl (ClientError ER_CROSS_ENGINE_TRANSACTION), world_open) \<and>
   fst (txn_begin_stmt memtx_space (snd (txn_begin_stmt vinyl_space world_open))) = Inr ()"
proof -
  have h: "fiber_txn world_open = Some txn0" "engine txn0 = Some 0"
    "handler_engine vinyl_space \<noteq> 0"
    by (simp_all add: world_open_def txn0_def vinyl_space_def)
  have g: "in_sub_stmt txn0 \<le> TXN_SUB_STMT_MAX" "\<not> in_prepare txn0"
    "handler_engine memtx_space = 0"
    by (simp_all add: txn0_def memtx_space_def TXN_SUB_STMT_MAX_def)
  note r = cross_engine_rejected[OF h]
  from r g have "txn_begin_stmt vinyl_space world_open =
      (Inl (ClientError ER_CROSS_ENGINE_TRANSACTION), world_open)"
    by (metis prod.collapse)
  moreover from r g
  have "fst (txn_begin_stmt memtx_space (snd (txn_begin_stmt vinyl_space world_open))) = Inr ()"
    by (metis fst_conv)
  ultimately show ?thesis using h g by simp
qed

subsection \<open>Rollback and the log write\<close>

lemma txn_rollback_active:
  assumes "fiber_txn w = Some t"
  shows "txn_rollback w = w\<lparr>fiber_txn := None, trace := trace w @ rollback_events t\<rparr>"
  using assms
  by (simp add: txn_rollback_def rollback_events_def Let_def emit_def fiber_set_txn_def
      split: option.splits)

lemma txn_rollback_idle:
  "fiber_txn w = None \<Longrightarrow> txn_rollback w = w"
  by (simp add: txn_rollback_def)

lemma wal_request_fill_trace:
  "wal_request_fill ss req (w\<lparr>trace := tr\<rparr>) =
     (case wal_request_fill ss req w of (ss', req', w') \<Rightarrow> (ss', req', w'\<lparr>trace := tr\<rparr>))"
proof (induction ss arbitrary: req w)
  case Nil
  show ?case by simp
next
  case (Cons s ss)
  show ?case
  proof (cases "row s")
    case None
    then show ?thesis by (simp add: Cons.IH split: prod.splits)
  next
    case (Some r)
    have swap: "w\<lparr>trace := tr, recovery_lsn := recovery_lsn w + 1\<rparr> =
                (w\<lparr>recovery_lsn := recovery_lsn w + 1\<rparr>)\<lparr>trace := tr\<rparr>"
      by simp
    show ?thesis
      using Some
      by (simp add: recovery_fill_lsn_def Let_def del: world.update_convs)
        (simp only: swap Cons.IH, simp split: prod.splits)
  qed
qed

text \<open>What \<^verbatim>\<open>txn_write_to_wal\<close> does when its two assertions hold.\<close>

lemma txn_write_to_wal_run:
  assumes act: "fiber_txn w = Some t" and pos: "0 < n_rows t" and cons: "rows_consistent t"
    and fill: "wal_request_fill (stmts t) [] w = (ss, req, w1)"
  defines "stop \<equiv> (if wal_attached w then wal_write_end w else ev_now w)"
  defines "res \<equiv> (if wal_attached w then wal_write_res w else vclock_sum w)"
  defines "w4 \<equiv> w\<lparr>fiber_txn := Some (t\<lparr>stmts := ss\<rparr>),
                   recovery_lsn := recovery_lsn w + n_rows t,
                   ev_now := stop,
                   trace := trace w @ (if wal_attached w then [WalWrite req] else []) @
                              (if fp_diff_gt w stop (ev_now w) (too_long_threshold w)
                               then [SayWarn] else [])\<rparr>"
  shows "txn_write_to_wal w =
           (if res < 0
            then (Inl (LoggedError ER_WAL_IO),
                  w4\<lparr>fiber_txn := None,
                     trace := trace w4 @ rollback_events t @ [FiberReschedule]\<rparr>)
            else (Inr res, w4))"
proof -
  have w1: "w1 = w\<lparr>recovery_lsn := recovery_lsn w + n_rows t\<rparr>"
    using wal_request_fill_world[OF fill] cons by (simp add: rows_consistent_def)
  have len: "int (length req) = n_rows t"
    using wal_request_fill_length[OF fill] cons by (simp add: rows_consistent_def)
  have rb: "rollback_events (t\<lparr>stmts := ss\<rparr>) = rollback_events t"
    by (simp add: rollback_events_def)
  define w2 where "w2 = fiber_set_txn (Some (t\<lparr>stmts := ss\<rparr>)) w1"
  define w3 where "w3 = (if \<not> wal_attached w2 then w2 else snd (wal_write req w2))"
  define v4 where
    "v4 = (if fp_diff_gt w3 (ev_now w3) (ev_now w2) (too_long_threshold w3)
           then emit SayWarn w3 else w3)"
  have v4: "v4 = w4"
    by (simp add: v4_def w3_def w2_def w1 w4_def stop_def wal_write_def fiber_set_txn_def
        emit_def)
  have t4: "fiber_txn w4 = Some (t\<lparr>stmts := ss\<rparr>)"
    by (simp add: w4_def)
  have "txn_write_to_wal w =
          (if res < 0 then (Inl (LoggedError ER_WAL_IO), emit FiberReschedule (txn_rollback v4))
           else (Inr res, v4))"
    using act pos fill len
    by (cases "wal_attached w")
      (simp_all add: txn_write_to_wal_def Let_def v4_def w3_def w2_def w1 res_def wal_write_def
        fiber_set_txn_def emit_def)
  then show ?thesis
    unfolding v4 by (simp add: txn_rollback_active[OF t4] rb emit_def)
qed

text \<open>
  What \<^verbatim>\<open>txn_commit\<close> does for a transaction with rows when the assertions hold: the
  engine prepares a one-phase transaction, the request is written, and then either the
  transaction is rolled back and the fiber rescheduled, or it is committed.
\<close>

lemma txn_commit_run:
  assumes act: "fiber_txn w = Some t" and eng: "engine t = Some e" and pos: "0 < n_rows t"
    and cons: "rows_consistent t" and prep: "is_two_phase t \<longrightarrow> in_prepare t"
    and fill: "wal_request_fill (stmts t) [] w = (ss, req, w1)"
  defines "stop \<equiv> (if wal_attached w then wal_write_end w else ev_now w)"
  defines "res \<equiv> (if wal_attached w then wal_write_res w else vclock_sum w)"
  defines "written \<equiv> (if \<not> is_two_phase t then [EnginePrepare e] else []) @
                      (if wal_attached w then [WalWrite req] else []) @
                      (if fp_diff_gt w stop (ev_now w) (too_long_threshold w)
                       then [SayWarn] else [])"
  shows "txn_commit w =
           (if res < 0
            then (Inl (LoggedError ER_WAL_IO),
                  w\<lparr>fiber_txn := None,
                    recovery_lsn := recovery_lsn w + n_rows t,
                    ev_now := stop,
                    trace := trace w @ written @ rollback_events t @ [FiberReschedule]\<rparr>)
            else (Inr (),
                  w\<lparr>fiber_txn := None,
                    recovery_lsn := recovery_lsn w + n_rows t,
                    ev_now := stop,
                    trace := trace w @ written @
                               (if has_triggers t then [TriggerRun_on_commit] else []) @
                               [EngineCommit e res, RegionDestroy, MempoolFree, FiberGc]\<rparr>))"
proof -
  define tr where "tr = trace w @ (if \<not> is_two_phase t then [EnginePrepare e] else [])"
  define w0 where "w0 = w\<lparr>trace := tr\<rparr>"
  have w0: "(if \<not> is_two_phase t then emit (EnginePrepare e) w else w) = w0"
    by (simp add: w0_def tr_def emit_def)
  have act0: "fiber_txn w0 = Some t" using act by (simp add: w0_def)
  have fill0: "wal_request_fill (stmts t) [] w0 = (ss, req, w1\<lparr>trace := tr\<rparr>)"
    unfolding w0_def by (simp add: wal_request_fill_trace fill)
  note run = txn_write_to_wal_run[OF act0 pos cons fill0]
  show ?thesis
  proof (cases "res < 0")
    case True
    then have "txn_write_to_wal w0 =
        (Inl (LoggedError ER_WAL_IO),
         w\<lparr>fiber_txn := None,
           recovery_lsn := recovery_lsn w + n_rows t,
           ev_now := stop,
           trace := trace w @ written @ rollback_events t @ [FiberReschedule]\<rparr>)"
      unfolding run
      by (cases "wal_attached w") (simp_all add: w0_def tr_def res_def stop_def written_def)
    then show ?thesis
      using act eng pos prep True by (simp add: txn_commit_def Let_def w0)
  next
    case False
    then have "txn_write_to_wal w0 =
        (Inr res,
         w\<lparr>fiber_txn := Some (t\<lparr>stmts := ss\<rparr>),
           recovery_lsn := recovery_lsn w + n_rows t,
           ev_now := stop,
           trace := trace w @ written\<rparr>)"
      unfolding run
      by (cases "wal_attached w") (simp_all add: w0_def tr_def res_def stop_def written_def)
    then show ?thesis
      using act eng pos prep False
      by (simp add: txn_commit_def Let_def w0 emit_def fiber_set_txn_def)
  qed
qed

lemma filter_wal_write_rollback_events:
  "filter is_wal_write (rollback_events t) = []"
  by (simp add: rollback_events_def split: option.splits)

lemma rows_consistent_txn_rows: "rows_consistent txn_rows"
  by (simp add: rows_consistent_def txn_rows_def txn0_def stmt_done_def stmt_void_def
      stmt_last_def stmt0_def)

text \<open>
  C1. When the log write fails during commit (the result of the writer, or of the fallback
  without a writer, is negative), \<^verbatim>\<open>txn_commit\<close> raises \<open>ER_WAL_IO\<close> and leaves the fiber
  without a transaction. After the events of the write (\<open>pre\<close>: the engine's prepare hook,
  the write, the latency warning) the trace ends with the rollback triggers (when any is
  registered), the engine's rollback hook, the destruction of the arena, and the fiber's
  move to the end of the ready queue; the engine's commit hook and the commit triggers do not
  run. The entry point \<^verbatim>\<open>box_txn_commit\<close> returns \<open>-1\<close> with that error and the same state.
\<close>

theorem wal_failure_rolls_back:
  assumes act: "fiber_txn w = Some t" and eng: "engine t = Some e" and pos: "0 < n_rows t"
    and cons: "rows_consistent t" and prep: "is_two_phase t \<longrightarrow> in_prepare t"
    and fail: "(if wal_attached w then wal_write_res w else vclock_sum w) < 0"
  shows "\<exists>pre w'.
           txn_commit w = (Inl (LoggedError ER_WAL_IO), w') \<and>
           fiber_txn w' = None \<and>
           trace w' = trace w @ pre @
                        (if has_triggers t then [TriggerRun_on_rollback] else []) @
                        [EngineRollback e, RegionDestroy, MempoolFree, FiberGc,
                         FiberReschedule] \<and>
           set pre \<subseteq> {EnginePrepare e, SayWarn} \<union> range WalWrite \<and>
           (in_sub_stmt t = 0 \<longrightarrow>
              box_txn_commit w = (Inr (- 1), w'\<lparr>diag := Some (LoggedError ER_WAL_IO)\<rparr>))"
proof -
  obtain ss req w1 where fill: "wal_request_fill (stmts t) [] w = (ss, req, w1)"
    by (metis prod_cases3)
  define pre where
    "pre = (if \<not> is_two_phase t then [EnginePrepare e] else []) @
           (if wal_attached w then [WalWrite req] else []) @
           (if fp_diff_gt w (if wal_attached w then wal_write_end w else ev_now w)
                 (ev_now w) (too_long_threshold w)
            then [SayWarn] else [])"
  define w' where
    "w' = w\<lparr>fiber_txn := None,
            recovery_lsn := recovery_lsn w + n_rows t,
            ev_now := (if wal_attached w then wal_write_end w else ev_now w),
            trace := trace w @ pre @ rollback_events t @ [FiberReschedule]\<rparr>"
  have commit: "txn_commit w = (Inl (LoggedError ER_WAL_IO), w')"
    using txn_commit_run[OF act eng pos cons prep fill] fail
    by (simp add: w'_def pre_def)
  have idle: "fiber_txn w' = None"
    by (simp add: w'_def)
  have tr: "trace w' = trace w @ pre @
              (if has_triggers t then [TriggerRun_on_rollback] else []) @
              [EngineRollback e, RegionDestroy, MempoolFree, FiberGc, FiberReschedule]"
    using eng by (simp add: w'_def rollback_events_def)
  have pre: "set pre \<subseteq> {EnginePrepare e, SayWarn} \<union> range WalWrite"
    by (auto simp add: pre_def)
  have box: "in_sub_stmt t = 0 \<longrightarrow>
      box_txn_commit w = (Inr (- 1), w'\<lparr>diag := Some (LoggedError ER_WAL_IO)\<rparr>)"
    using act prep commit idle
    by (auto simp add: box_txn_commit_def txn_rollback_idle diag_set_def)
  from commit idle tr pre box show ?thesis by blast
qed

theorem wal_failure_rolls_back_witness:
  "fiber_txn world_wal_fail = Some txn_rows \<and> engine txn_rows = Some 0 \<and>
   0 < n_rows txn_rows \<and> rows_consistent txn_rows \<and>
   \<not> is_two_phase txn_rows \<and>
   (if wal_attached world_wal_fail then wal_write_res world_wal_fail
    else vclock_sum world_wal_fail) < 0 \<and>
   fst (txn_commit world_wal_fail) = Inl (LoggedError ER_WAL_IO) \<and>
   fiber_txn (snd (txn_commit world_wal_fail)) = None \<and>
   fst (box_txn_commit world_wal_fail) = Inr (- 1) \<and>
   diag (snd (box_txn_commit world_wal_fail)) = Some (LoggedError ER_WAL_IO)"
proof -
  have h: "fiber_txn world_wal_fail = Some txn_rows" "engine txn_rows = Some 0"
    "0 < n_rows txn_rows" "rows_consistent txn_rows"
    "is_two_phase txn_rows \<longrightarrow> in_prepare txn_rows"
    "(if wal_attached world_wal_fail then wal_write_res world_wal_fail
      else vclock_sum world_wal_fail) < 0"
    by (simp_all add: rows_consistent_txn_rows)
      (simp_all add: world_wal_fail_def world_rows_def world0_def txn_rows_def txn0_def)
  have d: "in_sub_stmt txn_rows = 0" "\<not> is_two_phase txn_rows"
    by (simp_all add: txn_rows_def txn0_def)
  from wal_failure_rolls_back[OF h] d h show ?thesis
    by auto
qed

subsection \<open>The log-write request\<close>

text \<open>
  For a transaction that counts its rows correctly: the request \<open>req\<close> that the loop of
  \<^verbatim>\<open>txn_write_to_wal\<close> builds at commit holds exactly \<open>n_rows\<close> rows; apart from the two
  stamps (sequence number and time) they are the rows of the statements that carry one, in
  the order of the statement sequence, statements without a row being skipped. With a log
  writer attached, the commit submits this request and no other.
\<close>

lemma wal_request_rows:
  assumes act: "fiber_txn w = Some t" and eng: "engine t = Some e" and pos: "0 < n_rows t"
    and cons: "rows_consistent t" and prep: "is_two_phase t \<longrightarrow> in_prepare t"
    and fill: "wal_request_fill (stmts t) [] w = (ss, req, w1)"
  shows "int (length req) = n_rows t \<and>
         map unstamp req = map unstamp (List.map_filter row (stmts t)) \<and>
         (wal_attached w \<longrightarrow>
            filter is_wal_write (trace (snd (txn_commit w))) =
              filter is_wal_write (trace w) @ [WalWrite req])"
proof -
  have "int (length req) = n_rows t"
    using wal_request_fill_length[OF fill] cons by (simp add: rows_consistent_def)
  moreover have "map unstamp req = map unstamp (List.map_filter row (stmts t))"
    using wal_request_fill_rows[OF fill] by simp
  moreover have "wal_attached w \<longrightarrow>
            filter is_wal_write (trace (snd (txn_commit w))) =
              filter is_wal_write (trace w) @ [WalWrite req]"
    unfolding txn_commit_run[OF act eng pos cons prep fill]
    by (simp add: filter_wal_write_rollback_events)
  ultimately show ?thesis by blast
qed

subsection \<open>Triggers of a statement\<close>

lemma txn_rollback_on_replace:
  "filter is_on_replace (trace (txn_rollback w)) = filter is_on_replace (trace w)"
  by (simp add: txn_rollback_def emit_def fiber_set_txn_def Let_def split: option.splits)

lemma txn_write_to_wal_on_replace:
  "filter is_on_replace (trace (snd (txn_write_to_wal w))) = filter is_on_replace (trace w)"
proof (cases "fiber_txn w")
  case None
  then show ?thesis by (simp add: txn_write_to_wal_def)
next
  case (Some t)
  obtain ss req w1 where fill: "wal_request_fill (stmts t) [] w = (ss, req, w1)"
    by (metis prod_cases3)
  have w1: "trace w1 = trace w"
    using wal_request_fill_world[OF fill] by simp
  show ?thesis
    using Some fill w1
    by (simp add: txn_write_to_wal_def Let_def wal_write_def txn_rollback_on_replace
        emit_def fiber_set_txn_def split: prod.splits)
qed

lemma txn_commit_on_replace:
  "filter is_on_replace (trace (snd (txn_commit w))) = filter is_on_replace (trace w)"
proof (cases "fiber_txn w")
  case None
  then show ?thesis by (simp add: txn_commit_def)
next
  case act: (Some t)
  show ?thesis
  proof (cases "engine t")
    case None
    with act show ?thesis
      by (simp add: txn_commit_def Let_def emit_def fiber_set_txn_def)
  next
    case (Some e)
    define v where "v = (if \<not> is_two_phase t then emit (EnginePrepare e) w else w)"
    have v: "filter is_on_replace (trace v) = filter is_on_replace (trace w)"
      by (simp add: v_def emit_def)
    show ?thesis
    proof (cases "n_rows t > 0")
      case True
      obtain r v2 where r: "txn_write_to_wal v = (r, v2)" by (cases "txn_write_to_wal v")
      with txn_write_to_wal_on_replace[of v] v
      have "filter is_on_replace (trace v2) = filter is_on_replace (trace w)"
        by simp
      with act Some True r show ?thesis
        by (cases r)
          (simp_all add: txn_commit_def Let_def v_def[symmetric] emit_def fiber_set_txn_def)
    next
      case False
      with act Some v show ?thesis
        by (simp add: txn_commit_def Let_def v_def[symmetric] emit_def fiber_set_txn_def)
    qed
  qed
qed

text \<open>
  C7. When a statement is committed, the \<open>on_replace\<close> triggers of its space run once if the
  space has a trigger, triggers are enabled for it, and the statement has an old or a new
  tuple; otherwise no \<open>on_replace\<close> trigger runs, in particular for a statement with
  neither tuple. (The statement is the last of the sequence, as \<^verbatim>\<open>txn_commit_stmt\<close> reads
  it; the hypotheses are its two assertions.)
\<close>

theorem on_replace_runs_iff:
  assumes "fiber_txn w = Some t" and "0 < in_sub_stmt t" and "\<not> in_prepare t"
    and "stmts t \<noteq> []" and "space (last (stmts t)) = Some sp"
  shows "filter is_on_replace (trace (snd (txn_commit_stmt rq w))) =
           filter is_on_replace (trace w) @
           (if on_replace sp \<noteq> [] \<and> run_triggers sp \<and>
               (old_tuple (last (stmts t)) \<noteq> None \<or> new_tuple (last (stmts t)) \<noteq> None)
            then [TriggerRun_on_replace sp] else [])"
  using assms
  by (simp add: txn_commit_stmt_def Let_def txn_commit_on_replace emit_def fiber_set_txn_def)

theorem on_replace_runs_iff_witness:
  "fiber_txn world_open = Some txn0 \<and> 0 < in_sub_stmt txn0 \<and> \<not> in_prepare txn0 \<and>
   stmts txn0 \<noteq> [] \<and> space (last (stmts txn0)) = Some memtx_space \<and>
   on_replace memtx_space \<noteq> [] \<and> run_triggers memtx_space \<and>
   old_tuple (last (stmts txn0)) \<noteq> None \<and>
   filter is_on_replace (trace (snd (txn_commit_stmt request0 world_open))) =
     [TriggerRun_on_replace memtx_space]"
proof -
  have h: "fiber_txn world_open = Some txn0" "0 < in_sub_stmt txn0" "\<not> in_prepare txn0"
    "stmts txn0 \<noteq> []" "space (last (stmts txn0)) = Some memtx_space"
    by (simp_all add: world_open_def txn0_def stmt0_def)
  have c: "on_replace memtx_space \<noteq> []" "run_triggers memtx_space"
    "old_tuple (last (stmts txn0)) \<noteq> None" "trace world_open = []"
    by (simp_all add: memtx_space_def txn0_def stmt0_def world_open_def world0_def)
  from on_replace_runs_iff[OF h, of request0] h c show ?thesis
    by simp
qed

subsection \<open>Rolling back a statement\<close>

text \<open>
  C8. \<^verbatim>\<open>txn_rollback_stmt\<close> on a transaction that is not in autocommit mode and has a
  statement open asks the engine to roll the last statement back, removes the row of that
  statement and nothing else from the sequence, lowers \<open>n_rows\<close> by one if the statement had
  a row and by nothing otherwise, and lowers the depth by one. The statement record stays
  in the sequence and the statements before it are untouched.
\<close>

theorem rollback_stmt_voids_last_row:
  assumes "fiber_txn w = Some t" and "\<not> is_autocommit t" and "in_sub_stmt t \<noteq> 0"
    and "stmts t \<noteq> []" and "engine t = Some e"
    and "row (last (stmts t)) \<noteq> None \<longrightarrow> 0 < n_rows t"
  shows "txn_rollback_stmt w =
           (Inr (),
            w\<lparr>fiber_txn :=
                 Some (t\<lparr>stmts := butlast (stmts t) @ [(last (stmts t))\<lparr>row := None\<rparr>],
                         n_rows := n_rows t - (if row (last (stmts t)) \<noteq> None then 1 else 0),
                         in_sub_stmt := in_sub_stmt t - 1\<rparr>),
               trace := trace w @ [EngineRollbackStatement e (last (stmts t))]\<rparr>)"
proof (cases "row (last (stmts t))")
  case None
  then have same: "(last (stmts t))\<lparr>row := None\<rparr> = last (stmts t)"
    by simp
  have "t\<lparr>stmts := stmts t, n_rows := n_rows t\<rparr> = t"
    by simp
  with assms None show ?thesis
    by (simp add: txn_rollback_stmt_def Let_def emit_def fiber_set_txn_def same)
next
  case (Some r)
  with assms show ?thesis
    by (simp add: txn_rollback_stmt_def Let_def emit_def fiber_set_txn_def)
qed

theorem rollback_stmt_voids_last_row_witness:
  "fiber_txn world_nested = Some txn_nested \<and> \<not> is_autocommit txn_nested \<and>
   in_sub_stmt txn_nested \<noteq> 0 \<and> stmts txn_nested \<noteq> [] \<and> engine txn_nested = Some 0 \<and>
   row (last (stmts txn_nested)) \<noteq> None \<and> 0 < n_rows txn_nested \<and>
   fst (txn_rollback_stmt world_nested) = Inr () \<and>
   map_option stmts (fiber_txn (snd (txn_rollback_stmt world_nested))) =
     Some [stmt_done, stmt_void, stmt_last\<lparr>row := None\<rparr>] \<and>
   map_option n_rows (fiber_txn (snd (txn_rollback_stmt world_nested))) = Some 1 \<and>
   map_option in_sub_stmt (fiber_txn (snd (txn_rollback_stmt world_nested))) = Some 0"
proof -
  have h: "fiber_txn world_nested = Some txn_nested" "\<not> is_autocommit txn_nested"
    "in_sub_stmt txn_nested \<noteq> 0" "stmts txn_nested \<noteq> []" "engine txn_nested = Some 0"
    "row (last (stmts txn_nested)) \<noteq> None \<longrightarrow> 0 < n_rows txn_nested"
    by (simp_all add: world_nested_def txn_nested_def txn_rows_def txn0_def)
  have c: "row (last (stmts txn_nested)) \<noteq> None" "0 < n_rows txn_nested"
    "n_rows txn_nested = 2" "in_sub_stmt txn_nested = 1"
    "stmts txn_nested = [stmt_done, stmt_void, stmt_last]"
    by (simp_all add: txn_nested_def txn_rows_def txn0_def stmt_last_def)
  from rollback_stmt_voids_last_row[OF h] h c show ?thesis
    by simp
qed

subsection \<open>What commit leaves of the transaction\<close>

lemma txn_write_to_wal_txn:
  assumes act: "fiber_txn w = Some t"
  shows "fiber_txn (snd (txn_write_to_wal w)) = None \<or>
         (\<exists>ss. fiber_txn (snd (txn_write_to_wal w)) = Some (t\<lparr>stmts := ss\<rparr>))"
proof -
  obtain ss req w1 where fill: "wal_request_fill (stmts t) [] w = (ss, req, w1)"
    by (metis prod_cases3)
  define w2 where "w2 = fiber_set_txn (Some (t\<lparr>stmts := ss\<rparr>)) w1"
  define w3 where "w3 = (if \<not> wal_attached w2 then w2 else snd (wal_write req w2))"
  define res where "res = (if \<not> wal_attached w2 then vclock_sum w2 else wal_write_res w2)"
  define w4 where
    "w4 = (if fp_diff_gt w3 (ev_now w3) (ev_now w2) (too_long_threshold w3)
           then emit SayWarn w3 else w3)"
  have unfold: "txn_write_to_wal w =
      (if \<not> n_rows t > 0 then (Inl Abort, w)
       else if int (length req) \<noteq> n_rows t then (Inl Abort, w2)
       else if res < 0
         then (Inl (LoggedError ER_WAL_IO), emit FiberReschedule (txn_rollback w4))
         else (Inr res, w4))"
    using act fill
    by (cases "wal_attached w2")
      (simp_all add: txn_write_to_wal_def Let_def w2_def[symmetric] w3_def w4_def res_def
        wal_write_def)
  have t2: "fiber_txn w2 = Some (t\<lparr>stmts := ss\<rparr>)"
    by (simp add: w2_def fiber_set_txn_def)
  have t4: "fiber_txn w4 = Some (t\<lparr>stmts := ss\<rparr>)"
    using t2 by (simp add: w4_def w3_def wal_write_def emit_def)
  have rb: "fiber_txn (emit FiberReschedule (txn_rollback w4)) = None"
    by (simp add: txn_rollback_active[OF t4] emit_def)
  consider "\<not> n_rows t > 0" | "n_rows t > 0" "int (length req) \<noteq> n_rows t"
    | "n_rows t > 0" "int (length req) = n_rows t" "res < 0"
    | "n_rows t > 0" "int (length req) = n_rows t" "\<not> res < 0"
    by blast
  then show ?thesis
  proof cases
    case 1
    then have "fiber_txn (snd (txn_write_to_wal w)) = Some (t\<lparr>stmts := stmts t\<rparr>)"
      using act unfold by simp
    then show ?thesis by blast
  next
    case 2
    then have "fiber_txn (snd (txn_write_to_wal w)) = Some (t\<lparr>stmts := ss\<rparr>)"
      using t2 unfold by simp
    then show ?thesis by blast
  next
    case 3
    then show ?thesis using rb unfold by simp
  next
    case 4
    then have "fiber_txn (snd (txn_write_to_wal w)) = Some (t\<lparr>stmts := ss\<rparr>)"
      using t4 unfold by simp
    then show ?thesis by blast
  qed
qed

lemma txn_commit_txn:
  assumes act: "fiber_txn w = Some t"
  shows "fiber_txn (snd (txn_commit w)) = None \<or>
         (\<exists>ss. fiber_txn (snd (txn_commit w)) = Some (t\<lparr>stmts := ss\<rparr>))"
proof -
  have same: "\<exists>ss. t = t\<lparr>stmts := ss\<rparr>"
    by (rule exI[of _ "stmts t"]) simp
  show ?thesis
  proof (cases "engine t")
    case None
    with act same show ?thesis
      by (auto simp add: txn_commit_def Let_def emit_def fiber_set_txn_def)
  next
    case (Some e)
    define v where "v = (if \<not> is_two_phase t then emit (EnginePrepare e) w else w)"
    have v: "fiber_txn v = Some t" using act by (simp add: v_def emit_def)
    obtain r v2 where r: "txn_write_to_wal v = (r, v2)" by (cases "txn_write_to_wal v")
    have v2: "fiber_txn v2 = None \<or> (\<exists>ss. fiber_txn v2 = Some (t\<lparr>stmts := ss\<rparr>))"
      using txn_write_to_wal_txn[OF v] r by simp
    show ?thesis
    proof (cases "(stmts t = [] \<or> engine t \<noteq> None) \<and> (\<not> is_two_phase t \<or> in_prepare t)")
      case False
      with act same show ?thesis
        by (auto simp add: txn_commit_def)
    next
      case ok: True
      show ?thesis
      proof (cases "n_rows t > 0")
        case True
        with act Some ok r v2 show ?thesis
          by (cases r)
            (auto simp add: txn_commit_def Let_def v_def[symmetric] emit_def fiber_set_txn_def)
      next
        case False
        with act Some ok show ?thesis
          by (auto simp add: txn_commit_def Let_def emit_def fiber_set_txn_def)
      qed
    qed
  qed
qed

subsection \<open>The depth of open statements\<close>

lemma depth_bounded_begin_stmt:
  assumes "depth_bounded w"
  shows "depth_bounded (snd (txn_begin_stmt sp w))"
proof (cases "fiber_txn w")
  case None
  then show ?thesis
    by (simp add: depth_bounded_def txn_begin_stmt_def txn_begin_def txn_begin_in_engine_def
        txn_stmt_new_def Let_def emit_def fiber_set_txn_def TXN_SUB_STMT_MAX_def)
next
  case (Some t)
  with assms show ?thesis
    by (cases "engine t")
      (auto simp add: depth_bounded_def txn_begin_stmt_def txn_begin_in_engine_def
        txn_stmt_new_def Let_def emit_def fiber_set_txn_def TXN_SUB_STMT_MAX_def)
qed

lemma depth_bounded_commit:
  assumes "depth_bounded w"
  shows "depth_bounded (snd (txn_commit w))"
proof (cases "fiber_txn w")
  case None
  with assms show ?thesis by (simp add: txn_commit_def)
next
  case (Some t)
  from txn_commit_txn[OF Some] assms Some show ?thesis
    by (auto simp add: depth_bounded_def)
qed

lemma depth_bounded_commit_stmt:
  assumes "depth_bounded w"
  shows "depth_bounded (snd (txn_commit_stmt rq w))"
proof (cases "fiber_txn w")
  case None
  with assms show ?thesis by (simp add: txn_commit_stmt_def)
next
  case (Some t)
  have lower: "depth_bounded v"
    if "fiber_txn v = Some t'" "in_sub_stmt t' = in_sub_stmt t - 1" for v t'
    using that assms Some by (simp add: depth_bounded_def)
  show ?thesis
  proof (cases "0 < in_sub_stmt t \<and> \<not> in_prepare t \<and> stmts t \<noteq> [] \<and>
                space (last (stmts t)) \<noteq> None")
    case False
    with assms Some show ?thesis
      by (auto simp add: txn_commit_stmt_def split: option.splits)
  next
    case True
    then obtain sp where sp: "space (last (stmts t)) = Some sp" by blast
    define t1 where
      "t1 = (if \<not> is_temporary sp
             then t\<lparr>stmts := butlast (stmts t) @ [txn_add_redo (last (stmts t)) rq],
                    n_rows := n_rows t + 1\<rparr>
             else t)"
    define w1 where
      "w1 = (if on_replace sp \<noteq> [] \<and> run_triggers sp \<and>
                (old_tuple (last (stmts t)) \<noteq> None \<or> new_tuple (last (stmts t)) \<noteq> None)
             then emit (TriggerRun_on_replace sp) w else w)"
    define t2 where "t2 = t1\<lparr>in_sub_stmt := in_sub_stmt t1 - 1\<rparr>"
    define w2 where "w2 = fiber_set_txn (Some t2) w1"
    have eq: "txn_commit_stmt rq w =
        (if is_autocommit t2 \<and> in_sub_stmt t2 = 0 then txn_commit w2 else (Inr (), w2))"
      using Some True sp
      by (simp add: txn_commit_stmt_def Let_def t1_def t2_def w1_def w2_def)
    have t2: "fiber_txn w2 = Some t2" "in_sub_stmt t2 = in_sub_stmt t - 1"
      by (simp_all add: w2_def t2_def t1_def fiber_set_txn_def)
    have "depth_bounded w2" using lower t2 by blast
    then show ?thesis
      using eq depth_bounded_commit[of w2] by simp
  qed
qed

lemma depth_bounded_rollback_stmt:
  assumes "depth_bounded w"
  shows "depth_bounded (snd (txn_rollback_stmt w))"
proof (cases "fiber_txn w")
  case None
  with assms show ?thesis by (simp add: txn_rollback_stmt_def)
next
  case (Some t)
  with assms show ?thesis
    by (cases "engine t")
      (auto simp add: depth_bounded_def txn_rollback_stmt_def txn_rollback_active Let_def
        emit_def fiber_set_txn_def)
qed

lemma world_depth3_txn:
  "map_option in_sub_stmt (fiber_txn world_depth3) = Some 3 \<and>
   map_option engine (fiber_txn world_depth3) = Some (Some 0) \<and>
   map_option in_prepare (fiber_txn world_depth3) = Some False"
  by (simp add: world_depth3_def world_begun_def world0_def memtx_space_def box_txn_begin_def
      txn_begin_def txn_begin_stmt_def txn_begin_in_engine_def txn_stmt_new_def Let_def
      emit_def fiber_set_txn_def TXN_SUB_STMT_MAX_def)

text \<open>
  C2, as the code has it. The depth of open statements never exceeds
  \<open>TXN_SUB_STMT_MAX + 1 = 4\<close>: beginning, committing and rolling back a statement keep the
  bound. A \<^verbatim>\<open>txn_begin_stmt\<close> issued when the depth already exceeds \<open>TXN_SUB_STMT_MAX = 3\<close>
  fails with \<open>ER_SUB_STMT_MAX\<close> and changes nothing, depth and statement sequence included.
\<close>

theorem depth_at_most_max_plus_one:
  assumes "depth_bounded w"
  shows "depth_bounded (snd (txn_begin_stmt sp w)) \<and>
         depth_bounded (snd (txn_commit_stmt rq w)) \<and>
         depth_bounded (snd (txn_rollback_stmt w)) \<and>
         (\<forall>t. fiber_txn w = Some t \<and> TXN_SUB_STMT_MAX < in_sub_stmt t \<longrightarrow>
              txn_begin_stmt sp w = (Inl (ClientError ER_SUB_STMT_MAX), w))"
  using depth_bounded_begin_stmt[OF assms] depth_bounded_commit_stmt[OF assms]
    depth_bounded_rollback_stmt[OF assms]
  by (simp add: txn_begin_stmt_def)

lemma world_depth4_txn:
  "map_option in_sub_stmt (fiber_txn world_depth4) = Some 4"
  by (simp add: world_depth4_def world_depth3_def world_begun_def world0_def memtx_space_def
      box_txn_begin_def txn_begin_def txn_begin_stmt_def txn_begin_in_engine_def
      txn_stmt_new_def Let_def emit_def fiber_set_txn_def TXN_SUB_STMT_MAX_def)

theorem depth_at_most_max_plus_one_witness:
  "depth_bounded world_depth4 \<and>
   map_option in_sub_stmt (fiber_txn world_depth4) = Some 4 \<and>
   TXN_SUB_STMT_MAX < 4 \<and>
   depth_bounded (snd (txn_commit_stmt request0 world_depth4)) \<and>
   txn_begin_stmt memtx_space world_depth4 =
     (Inl (ClientError ER_SUB_STMT_MAX), world_depth4)"
proof -
  obtain t where t: "fiber_txn world_depth4 = Some t" "in_sub_stmt t = 4"
    using world_depth4_txn by (cases "fiber_txn world_depth4") auto
  have b: "depth_bounded world_depth4"
    using t by (simp add: depth_bounded_def TXN_SUB_STMT_MAX_def)
  from depth_at_most_max_plus_one[OF b, of memtx_space request0] t b world_depth4_txn
  show ?thesis
    by (simp add: TXN_SUB_STMT_MAX_def)
qed

text \<open>
  The claim as it was stated fails: with three statements open, \<^verbatim>\<open>txn_begin_stmt\<close> succeeds
  and the depth becomes four.
\<close>

theorem begin_stmt_at_depth_three_counterexample:
  "TXN_SUB_STMT_MAX = 3 \<and>
   map_option in_sub_stmt (fiber_txn world_depth3) = Some 3 \<and>
   fst (txn_begin_stmt memtx_space world_depth3) = Inr () \<and>
   map_option in_sub_stmt (fiber_txn (snd (txn_begin_stmt memtx_space world_depth3))) = Some 4"
  by (simp add: world_depth3_def world_begun_def world0_def memtx_space_def
      box_txn_begin_def txn_begin_def txn_begin_stmt_def txn_begin_in_engine_def
      txn_stmt_new_def Let_def emit_def fiber_set_txn_def TXN_SUB_STMT_MAX_def)

subsection \<open>The count of rows\<close>

lemma filter_last_split:
  assumes "xs \<noteq> []"
  shows "length (filter P xs) = length (filter P (butlast xs)) + (if P (last xs) then 1 else 0)"
proof -
  from assms have "xs = butlast xs @ [last xs]" by simp
  then have "filter P xs = filter P (butlast xs) @ filter P [last xs]"
    by (metis filter_append)
  then show ?thesis by simp
qed

lemma rows_ok_begin_stmt:
  assumes "rows_ok w"
  shows "rows_ok (snd (txn_begin_stmt sp w))"
proof (cases "fiber_txn w")
  case None
  then show ?thesis
    by (simp add: rows_ok_def rows_consistent_def txn_begin_stmt_def txn_begin_def
        txn_begin_in_engine_def txn_stmt_new_def Let_def emit_def fiber_set_txn_def)
next
  case (Some t)
  with assms show ?thesis
    by (cases "engine t")
      (auto simp add: rows_ok_def rows_consistent_def txn_begin_stmt_def
        txn_begin_in_engine_def txn_stmt_new_def Let_def emit_def fiber_set_txn_def)
qed

lemma rows_ok_rollback_stmt:
  assumes "rows_ok w"
  shows "rows_ok (snd (txn_rollback_stmt w))"
proof (cases "fiber_txn w")
  case None
  with assms show ?thesis by (simp add: txn_rollback_stmt_def)
next
  case (Some t)
  have cons: "rows_consistent t" using assms Some by (simp add: rows_ok_def)
  show ?thesis
  proof (cases "is_autocommit t \<or> in_sub_stmt t = 0 \<or> stmts t = [] \<or> engine t = None")
    case True
    with assms Some show ?thesis
      by (auto simp add: rows_ok_def txn_rollback_stmt_def txn_rollback_active
          split: option.splits)
  next
    case False
    then obtain e where e: "engine t = Some e" by auto
    have ne: "stmts t \<noteq> []" using False by simp
    note split = filter_last_split[OF ne, of "\<lambda>s. row s \<noteq> None"]
    show ?thesis
    proof (cases "row (last (stmts t))")
      case None
      with Some False e cons show ?thesis
        by (simp add: rows_ok_def rows_consistent_def txn_rollback_stmt_def Let_def emit_def
            fiber_set_txn_def)
    next
      case (Some r)
      with \<open>fiber_txn w = Some t\<close> False e cons split show ?thesis
        by (simp add: rows_ok_def rows_consistent_def txn_rollback_stmt_def Let_def emit_def
            fiber_set_txn_def)
    qed
  qed
qed

lemma rows_ok_commit:
  assumes "rows_ok w"
  shows "rows_ok (snd (txn_commit w))"
proof (cases "fiber_txn w")
  case None
  with assms show ?thesis by (simp add: txn_commit_def)
next
  case (Some t)
  have cons: "rows_consistent t" using assms Some by (simp add: rows_ok_def)
  show ?thesis
  proof (cases "(stmts t = [] \<or> engine t \<noteq> None) \<and> (\<not> is_two_phase t \<or> in_prepare t)")
    case False
    with assms Some show ?thesis by (auto simp add: txn_commit_def)
  next
    case ok: True
    show ?thesis
    proof (cases "engine t")
      case None
      with Some ok show ?thesis
        by (simp add: txn_commit_def Let_def rows_ok_def emit_def fiber_set_txn_def)
    next
      case (Some e)
      show ?thesis
      proof (cases "0 < n_rows t")
        case True
        obtain ss req w1 where fill: "wal_request_fill (stmts t) [] w = (ss, req, w1)"
          by (metis prod_cases3)
        from ok have prep: "is_two_phase t \<longrightarrow> in_prepare t" by blast
        show ?thesis
          unfolding txn_commit_run[OF \<open>fiber_txn w = Some t\<close> Some True cons prep fill]
          by (simp add: rows_ok_def)
      next
        case False
        with \<open>fiber_txn w = Some t\<close> Some ok show ?thesis
          by (simp add: txn_commit_def Let_def rows_ok_def emit_def fiber_set_txn_def)
      qed
    qed
  qed
qed

lemma rows_ok_commit_stmt:
  assumes ok: "rows_ok w"
    and fresh: "\<forall>t sp. fiber_txn w = Some t \<and> stmts t \<noteq> [] \<and>
                  space (last (stmts t)) = Some sp \<and> \<not> is_temporary sp \<longrightarrow>
                  row (last (stmts t)) = None"
  shows "rows_ok (snd (txn_commit_stmt rq w))"
proof (cases "fiber_txn w")
  case None
  with ok show ?thesis by (simp add: txn_commit_stmt_def)
next
  case (Some t)
  have cons: "rows_consistent t" using ok Some by (simp add: rows_ok_def)
  show ?thesis
  proof (cases "0 < in_sub_stmt t \<and> \<not> in_prepare t \<and> stmts t \<noteq> [] \<and>
                space (last (stmts t)) \<noteq> None")
    case False
    with ok Some show ?thesis
      by (auto simp add: txn_commit_stmt_def split: option.splits)
  next
    case True
    then obtain sp where sp: "space (last (stmts t)) = Some sp" by blast
    have ne: "stmts t \<noteq> []" using True by simp
    define t1 where
      "t1 = (if \<not> is_temporary sp
             then t\<lparr>stmts := butlast (stmts t) @ [txn_add_redo (last (stmts t)) rq],
                    n_rows := n_rows t + 1\<rparr>
             else t)"
    define w1 where
      "w1 = (if on_replace sp \<noteq> [] \<and> run_triggers sp \<and>
                (old_tuple (last (stmts t)) \<noteq> None \<or> new_tuple (last (stmts t)) \<noteq> None)
             then emit (TriggerRun_on_replace sp) w else w)"
    define t2 where "t2 = t1\<lparr>in_sub_stmt := in_sub_stmt t1 - 1\<rparr>"
    define w2 where "w2 = fiber_set_txn (Some t2) w1"
    have eq: "txn_commit_stmt rq w =
        (if is_autocommit t2 \<and> in_sub_stmt t2 = 0 then txn_commit w2 else (Inr (), w2))"
      using Some True sp
      by (simp add: txn_commit_stmt_def Let_def t1_def t2_def w1_def w2_def)
    have redo: "row (txn_add_redo s rq) \<noteq> None" for s
      by (simp add: txn_add_redo_def split: option.splits)
    have "rows_consistent t1"
    proof (cases "is_temporary sp")
      case True
      then show ?thesis using cons by (simp add: t1_def)
    next
      case False
      with fresh Some ne sp have "row (last (stmts t)) = None" by blast
      with False cons filter_last_split[OF ne, of "\<lambda>s. row s \<noteq> None"] redo
      show ?thesis
        by (simp add: t1_def rows_consistent_def)
    qed
    then have "rows_consistent t2"
      by (simp add: t2_def rows_consistent_def)
    then have "rows_ok w2"
      by (simp add: rows_ok_def w2_def fiber_set_txn_def)
    then show ?thesis
      using eq rows_ok_commit[of w2] by simp
  qed
qed

text \<open>
  That \<open>n_rows\<close> equals the number of statements carrying a row is preserved by
  \<^verbatim>\<open>txn_begin_stmt\<close> and by \<^verbatim>\<open>txn_rollback_stmt\<close>, and by \<^verbatim>\<open>txn_commit_stmt\<close> when the last
  statement of the sequence, the one that receives the row, has no row yet or is on a
  temporary space. While it holds, the request built at commit has exactly \<open>n_rows\<close> rows.
\<close>

lemma rows_ok_preserved:
  assumes "rows_ok w"
  shows "rows_ok (snd (txn_begin_stmt sp w)) \<and>
         rows_ok (snd (txn_rollback_stmt w)) \<and>
         ((\<forall>t sp. fiber_txn w = Some t \<and> stmts t \<noteq> [] \<and>
                   space (last (stmts t)) = Some sp \<and> \<not> is_temporary sp \<longrightarrow>
                   row (last (stmts t)) = None) \<longrightarrow>
          rows_ok (snd (txn_commit_stmt rq w))) \<and>
         (\<forall>t ss req w1. fiber_txn w = Some t \<and>
                         wal_request_fill (stmts t) [] w = (ss, req, w1) \<longrightarrow>
                         int (length req) = n_rows t)"
proof -
  have "int (length req) = n_rows t"
    if "fiber_txn w = Some t" "wal_request_fill (stmts t) [] w = (ss, req, w1)"
    for t ss req w1
    using wal_request_fill_length[OF that(2)] assms that(1)
    by (simp add: rows_ok_def rows_consistent_def)
  then show ?thesis
    using rows_ok_begin_stmt[OF assms] rows_ok_rollback_stmt[OF assms]
      rows_ok_commit_stmt[OF assms]
    by blast
qed

subsection \<open>Statements run one after another\<close>

lemma txn_begin_stmt_ok:
  assumes act: "fiber_txn w = Some t"
    and bound: "engine t = Some (handler_engine sp) \<or> (engine t = None \<and> stmts t = [])"
    and depth: "in_sub_stmt t \<le> TXN_SUB_STMT_MAX" and unprep: "\<not> in_prepare t"
  shows "txn_begin_stmt sp w =
           (Inr (),
            w\<lparr>fiber_txn :=
                 Some (t\<lparr>engine := Some (handler_engine sp),
                         stmts := stmts t @
                                    [\<lparr>space = Some sp, old_tuple = None, new_tuple = None,
                                      engine_savepoint = None, row = None\<rparr>],
                         in_sub_stmt := in_sub_stmt t + 1\<rparr>),
               trace := trace w @
                          (if engine t = None then [EngineBegin (handler_engine sp)] else []) @
                          [EngineBeginStatement (handler_engine sp)]\<rparr>)"
proof (cases "engine t")
  case None
  with assms show ?thesis
    by (simp add: txn_begin_stmt_def txn_begin_in_engine_def txn_stmt_new_def Let_def
        emit_def fiber_set_txn_def)
next
  case (Some e)
  with bound have e: "e = handler_engine sp" by simp
  have same: "t\<lparr>engine := Some (handler_engine sp)\<rparr> = t"
    using Some e by simp
  have "txn_begin_stmt sp w =
           (Inr (),
            w\<lparr>fiber_txn :=
                 Some ((t\<lparr>engine := Some (handler_engine sp)\<rparr>)
                        \<lparr>stmts := stmts t @
                                    [\<lparr>space = Some sp, old_tuple = None, new_tuple = None,
                                      engine_savepoint = None, row = None\<rparr>],
                         in_sub_stmt := in_sub_stmt t + 1\<rparr>),
               trace := trace w @ [EngineBeginStatement (handler_engine sp)]\<rparr>)"
    unfolding same
    using act Some e depth unprep
    by (simp add: txn_begin_stmt_def txn_begin_in_engine_def txn_stmt_new_def Let_def
        emit_def fiber_set_txn_def)
  then show ?thesis using Some by simp
qed

lemma exec_stmt_ok:
  assumes act: "fiber_txn w = Some t"
    and bound: "engine t = Some (handler_engine sp) \<or> (engine t = None \<and> stmts t = [])"
    and depth: "in_sub_stmt t = 0" and unprep: "\<not> in_prepare t"
    and multi: "\<not> is_autocommit t"
  shows "\<exists>evs. exec_stmt (sp, rq, old, new) w =
                 (Inr (),
                  w\<lparr>fiber_txn :=
                       Some (t\<lparr>engine := Some (handler_engine sp),
                               stmts := stmts t @ [committed_stmt (sp, rq, old, new)],
                               n_rows := n_rows t + (if is_temporary sp then 0 else 1)\<rparr>),
                     trace := trace w @ evs\<rparr>) \<and>
               filter is_wal_write evs = []"
proof -
  have d: "in_sub_stmt t \<le> TXN_SUB_STMT_MAX"
    using depth by (simp add: TXN_SUB_STMT_MAX_def)
  have redo: "txn_add_redo s rq = s\<lparr>row := Some (redo_row rq)\<rparr>" for s
    by (simp add: txn_add_redo_def redo_row_def split: option.splits)
  define evs where
    "evs = (if engine t = None then [EngineBegin (handler_engine sp)] else []) @
           [EngineBeginStatement (handler_engine sp)] @
           (if on_replace sp \<noteq> [] \<and> run_triggers sp \<and> (old \<noteq> None \<or> new \<noteq> None)
            then [TriggerRun_on_replace sp] else [])"
  have "exec_stmt (sp, rq, old, new) w =
                 (Inr (),
                  w\<lparr>fiber_txn :=
                       Some (t\<lparr>engine := Some (handler_engine sp),
                               stmts := stmts t @ [committed_stmt (sp, rq, old, new)],
                               n_rows := n_rows t + (if is_temporary sp then 0 else 1)\<rparr>),
                     trace := trace w @ evs\<rparr>)"
    unfolding exec_stmt_def
    using depth unprep multi
    by (simp add: txn_begin_stmt_ok[OF act bound d unprep] engine_set_tuples_def
        txn_commit_stmt_def Let_def redo committed_stmt_def emit_def fiber_set_txn_def evs_def)
  moreover have "filter is_wal_write evs = []"
    by (simp add: evs_def)
  ultimately show ?thesis by blast
qed

lemma exec_stmts_ok:
  assumes "fiber_txn w = Some t"
    and "engine t = Some e \<or> (engine t = None \<and> stmts t = [])"
    and "in_sub_stmt t = 0" and "\<not> in_prepare t" and "\<not> is_autocommit t"
    and "\<forall>c \<in> set cs. handler_engine (fst c) = e"
  shows "\<exists>evs t'. exec_stmts cs w = (Inr (), w\<lparr>fiber_txn := Some t', trace := trace w @ evs\<rparr>) \<and>
           filter is_wal_write evs = [] \<and>
           stmts t' = stmts t @ map committed_stmt cs \<and>
           n_rows t' = n_rows t + int (length [c \<leftarrow> cs. \<not> is_temporary (fst c)]) \<and>
           in_sub_stmt t' = 0 \<and> \<not> in_prepare t' \<and> \<not> is_autocommit t' \<and>
           is_two_phase t' = is_two_phase t \<and> has_triggers t' = has_triggers t \<and>
           engine t' = (if cs = [] then engine t else Some e)"
  using assms
proof (induction cs arbitrary: w t)
  case Nil
  have "w = w\<lparr>fiber_txn := Some t, trace := trace w @ []\<rparr>"
    using Nil.prems(1) by simp
  then have "exec_stmts [] w = (Inr (), w\<lparr>fiber_txn := Some t, trace := trace w @ []\<rparr>)"
    by simp
  with Nil.prems show ?case
    by (intro exI[of _ "[]"] exI[of _ t]) simp
next
  case (Cons c cs)
  obtain sp rq old new where c: "c = (sp, rq, old, new)" by (cases c)
  have e: "handler_engine sp = e" using Cons.prems(6) c by simp
  have bound: "engine t = Some (handler_engine sp) \<or> (engine t = None \<and> stmts t = [])"
    using Cons.prems(2) e by simp
  define t1 where
    "t1 = t\<lparr>engine := Some (handler_engine sp),
            stmts := stmts t @ [committed_stmt (sp, rq, old, new)],
            n_rows := n_rows t + (if is_temporary sp then 0 else 1)\<rparr>"
  from exec_stmt_ok[OF Cons.prems(1) bound Cons.prems(3,4,5), of rq old new]
  obtain evs1 where step:
    "exec_stmt c w = (Inr (), w\<lparr>fiber_txn := Some t1, trace := trace w @ evs1\<rparr>)"
    "filter is_wal_write evs1 = []"
    unfolding c t1_def by blast
  define w1 where "w1 = w\<lparr>fiber_txn := Some t1, trace := trace w @ evs1\<rparr>"
  have p: "fiber_txn w1 = Some t1" "engine t1 = Some e \<or> (engine t1 = None \<and> stmts t1 = [])"
    "in_sub_stmt t1 = 0" "\<not> in_prepare t1" "\<not> is_autocommit t1"
    "\<forall>c \<in> set cs. handler_engine (fst c) = e"
    using Cons.prems e by (simp_all add: w1_def t1_def)
  from Cons.IH[OF p] obtain evs t' where rest:
    "exec_stmts cs w1 = (Inr (), w1\<lparr>fiber_txn := Some t', trace := trace w1 @ evs\<rparr>)"
    "filter is_wal_write evs = []"
    "stmts t' = stmts t1 @ map committed_stmt cs"
    "n_rows t' = n_rows t1 + int (length [c \<leftarrow> cs. \<not> is_temporary (fst c)])"
    "in_sub_stmt t' = 0" "\<not> in_prepare t'" "\<not> is_autocommit t'"
    "is_two_phase t' = is_two_phase t1" "has_triggers t' = has_triggers t1"
    "engine t' = (if cs = [] then engine t1 else Some e)"
    by blast
  have "exec_stmts (c # cs) w =
          (Inr (), w\<lparr>fiber_txn := Some t', trace := trace w @ (evs1 @ evs)\<rparr>)"
    using step(1) rest(1) by (simp add: w1_def)
  moreover have "filter is_wal_write (evs1 @ evs) = []"
    using step(2) rest(2) by simp
  moreover have "stmts t' = stmts t @ map committed_stmt (c # cs)"
    using rest(3) by (simp add: t1_def c)
  moreover have "n_rows t' = n_rows t + int (length [c \<leftarrow> c # cs. \<not> is_temporary (fst c)])"
    using rest(4) by (simp add: t1_def c)
  moreover have "is_two_phase t' = is_two_phase t" "has_triggers t' = has_triggers t"
    "engine t' = (if c # cs = [] then engine t else Some e)"
    using rest(8,9,10) e by (simp_all add: t1_def)
  ultimately show ?case
    using rest(5,6,7) by blast
qed

text \<open>
  One step, for a transaction that is not in autocommit mode: \<^verbatim>\<open>txn_commit_stmt\<close> raises
  \<open>n_rows\<close> by one when the space of the statement is not temporary and leaves it alone
  otherwise; the old and the new tuple play no part.
\<close>

lemma txn_commit_stmt_n_rows:
  assumes "fiber_txn w = Some t" and "0 < in_sub_stmt t" and "\<not> in_prepare t"
    and "stmts t \<noteq> []" and "space (last (stmts t)) = Some sp" and "\<not> is_autocommit t"
  shows "\<exists>w' t'. txn_commit_stmt rq w = (Inr (), w') \<and> fiber_txn w' = Some t' \<and>
           n_rows t' = n_rows t + (if is_temporary sp then 0 else 1) \<and>
           (is_temporary sp \<longrightarrow> stmts t' = stmts t)"
  using assms
  by (simp add: txn_commit_stmt_def Let_def emit_def fiber_set_txn_def)

text \<open>
  C4, as the code has it. In a transaction that is not in autocommit mode, after statements
  have been run one after another (each begun, executed and committed), \<open>n_rows\<close> has grown
  by the number of those statements whose space is not temporary, whatever old and new
  tuple they have; the record of a statement on a temporary space carries no row
  (\<open>committed_stmt\<close>) and adds nothing to \<open>n_rows\<close>.
\<close>

theorem row_count_counts_non_temporary:
  assumes "fiber_txn w = Some t"
    and "engine t = Some e \<or> (engine t = None \<and> stmts t = [])"
    and "in_sub_stmt t = 0" and "\<not> in_prepare t" and "\<not> is_autocommit t"
    and "\<forall>c \<in> set cs. handler_engine (fst c) = e"
  shows "\<exists>w' t'. exec_stmts cs w = (Inr (), w') \<and> fiber_txn w' = Some t' \<and>
           stmts t' = stmts t @ map committed_stmt cs \<and>
           n_rows t' = n_rows t + int (length [c \<leftarrow> cs. \<not> is_temporary (fst c)])"
proof -
  from exec_stmts_ok[OF assms] obtain evs t' where
    "exec_stmts cs w = (Inr (), w\<lparr>fiber_txn := Some t', trace := trace w @ evs\<rparr>)"
    "stmts t' = stmts t @ map committed_stmt cs"
    "n_rows t' = n_rows t + int (length [c \<leftarrow> cs. \<not> is_temporary (fst c)])"
    by blast
  then show ?thesis
    by (intro exI[of _ "w\<lparr>fiber_txn := Some t', trace := trace w @ evs\<rparr>"] exI[of _ t']) simp
qed

theorem row_count_counts_non_temporary_witness:
  "fiber_txn world_rows = Some txn_rows \<and>
   (engine txn_rows = Some 0 \<or> (engine txn_rows = None \<and> stmts txn_rows = [])) \<and>
   in_sub_stmt txn_rows = 0 \<and> \<not> in_prepare txn_rows \<and> \<not> is_autocommit txn_rows \<and>
   map (handler_engine \<circ> fst) calls0 = [0, 0, 0] \<and>
   n_rows txn_rows = 2 \<and> length [c \<leftarrow> calls0. \<not> is_temporary (fst c)] = 2 \<and>
   fst (exec_stmts calls0 world_rows) = Inr () \<and>
   map_option n_rows (fiber_txn (snd (exec_stmts calls0 world_rows))) = Some 4 \<and>
   map_option (map row \<circ> drop 3 \<circ> stmts) (fiber_txn (snd (exec_stmts calls0 world_rows))) =
     Some [Some (redo_row request0), None, Some (redo_row request1)]"
proof -
  have h: "fiber_txn world_rows = Some txn_rows"
    "engine txn_rows = Some 0 \<or> (engine txn_rows = None \<and> stmts txn_rows = [])"
    "in_sub_stmt txn_rows = 0" "\<not> in_prepare txn_rows" "\<not> is_autocommit txn_rows"
    "\<forall>c \<in> set calls0. handler_engine (fst c) = 0"
    by (simp_all add: world_rows_def txn_rows_def txn0_def calls0_def memtx_space_def
        temp_space_def)
  have c: "n_rows txn_rows = 2" "length [c \<leftarrow> calls0. \<not> is_temporary (fst c)] = 2"
    "length (stmts txn_rows) = 3"
    "map (handler_engine \<circ> fst) calls0 = [0, 0, 0]"
    "map row (map committed_stmt calls0) =
       [Some (redo_row request0), None, Some (redo_row request1)]"
    by (simp_all add: txn_rows_def calls0_def memtx_space_def temp_space_def
        committed_stmt_def)
  from row_count_counts_non_temporary[OF h] obtain w' t' where
    "exec_stmts calls0 world_rows = (Inr (), w')" "fiber_txn w' = Some t'"
    "stmts t' = stmts txn_rows @ map committed_stmt calls0"
    "n_rows t' = n_rows txn_rows + int (length [c \<leftarrow> calls0. \<not> is_temporary (fst c)])"
    by blast
  with h c show ?thesis
    by simp
qed

text \<open>
  In autocommit mode the transaction is the one statement that \<^verbatim>\<open>txn_begin_stmt\<close> opened it
  for: its row is written at once when the space is not temporary, whatever the tuples, and
  nothing is written when it is temporary.
\<close>

lemma autocommit_stmt_rows:
  assumes "fiber_txn w = None" and "wal_attached w"
  shows "filter is_wal_write (trace (snd (exec_stmt (sp, rq, old, new) w))) =
           filter is_wal_write (trace w) @
           (if is_temporary sp then []
            else [WalWrite [(redo_row rq)\<lparr>row_lsn := recovery_lsn w + 1, row_tm := ev_now w\<rparr>]])"
  using assms
  by (cases "is_temporary sp")
    (simp_all add: exec_stmt_def engine_set_tuples_def redo_row_def
      txn_begin_def txn_begin_stmt_def txn_begin_in_engine_def txn_stmt_new_def
      txn_commit_stmt_def txn_add_redo_def txn_commit_def txn_write_to_wal_def
      txn_rollback_def recovery_fill_lsn_def wal_write_def
      Let_def emit_def fiber_set_txn_def TXN_SUB_STMT_MAX_def split: option.splits)

lemma committed_stmt_rows:
  "List.map_filter row (map committed_stmt cs) =
     map (\<lambda>c. redo_row (fst (snd c))) [c \<leftarrow> cs. \<not> is_temporary (fst c)]"
  by (induction cs) (auto simp add: committed_stmt_def List.map_filter_simps)

lemma committed_stmt_count:
  "length [s \<leftarrow> map committed_stmt cs. row s \<noteq> None] =
     length [c \<leftarrow> cs. \<not> is_temporary (fst c)]"
  by (induction cs) (auto simp add: committed_stmt_def split: if_splits)

lemma box_txn_begin_idle:
  assumes "fiber_txn w = None"
  shows "box_txn_begin w =
           (Inr 0,
            w\<lparr>fiber_txn :=
                 Some \<lparr>stmts = [], is_two_phase = False, in_prepare = False,
                       tx_id = - 1, coordinator_id = - 1, n_rows = 0,
                       is_autocommit = False, has_triggers = False, in_sub_stmt = 0,
                       engine = None, engine_tx = None,
                       fiber_on_yield_run = None, fiber_on_stop_run = None\<rparr>,
               trace := trace w @ [MempoolAlloc, RegionCreate]\<rparr>)"
  using assms
  by (simp add: box_txn_begin_def txn_begin_def Let_def emit_def fiber_set_txn_def)

text \<open>
  Round trip: a transaction is begun, statements are run one after another, the
  transaction is committed. The request that reaches the log writer holds, in the order of
  the calls, the rows of the requests whose space is not temporary.
\<close>

lemma round_trip_rows:
  assumes idle: "fiber_txn w = None" and wal: "wal_attached w"
    and eng: "\<forall>c \<in> set cs. handler_engine (fst c) = e"
    and durable: "\<exists>c \<in> set cs. \<not> is_temporary (fst c)"
  shows "\<exists>w1 req. exec_stmts cs (snd (box_txn_begin w)) = (Inr (), w1) \<and>
           filter is_wal_write (trace (snd (box_txn_commit w1))) =
             filter is_wal_write (trace w) @ [WalWrite req] \<and>
           map unstamp req =
             map (\<lambda>c. unstamp (redo_row (fst (snd c)))) [c \<leftarrow> cs. \<not> is_temporary (fst c)]"
proof -
  define t0 where
    "t0 = \<lparr>stmts = [], is_two_phase = False, in_prepare = False,
           tx_id = - 1, coordinator_id = - 1, n_rows = 0,
           is_autocommit = False, has_triggers = False, in_sub_stmt = 0,
           engine = None, engine_tx = None,
           fiber_on_yield_run = None, fiber_on_stop_run = None\<rparr>"
  define w0 where "w0 = w\<lparr>fiber_txn := Some t0, trace := trace w @ [MempoolAlloc, RegionCreate]\<rparr>"
  have begun: "snd (box_txn_begin w) = w0"
    by (simp add: box_txn_begin_idle[OF idle] w0_def t0_def)
  have p: "fiber_txn w0 = Some t0" "engine t0 = Some e \<or> (engine t0 = None \<and> stmts t0 = [])"
    "in_sub_stmt t0 = 0" "\<not> in_prepare t0" "\<not> is_autocommit t0"
    by (simp_all add: w0_def t0_def)
  from durable have ne: "cs \<noteq> []" by auto
  from exec_stmts_ok[OF p eng] ne obtain evs t' where run:
    "exec_stmts cs w0 = (Inr (), w0\<lparr>fiber_txn := Some t', trace := trace w0 @ evs\<rparr>)"
    "filter is_wal_write evs = []"
    "stmts t' = map committed_stmt cs"
    "n_rows t' = int (length [c \<leftarrow> cs. \<not> is_temporary (fst c)])"
    "in_sub_stmt t' = 0" "\<not> is_two_phase t'"
    "engine t' = Some e"
    by (auto simp add: t0_def)
  define w1 where "w1 = w0\<lparr>fiber_txn := Some t', trace := trace w0 @ evs\<rparr>"
  have act: "fiber_txn w1 = Some t'" by (simp add: w1_def)
  have pos: "0 < n_rows t'"
    using run(4) durable by (simp add: filter_empty_conv)
  have cons: "rows_consistent t'"
    unfolding rows_consistent_def run(3) run(4) committed_stmt_count by (rule refl)
  have prep: "is_two_phase t' \<longrightarrow> in_prepare t'" using run(6) by simp
  obtain ss req v where fill: "wal_request_fill (stmts t') [] w1 = (ss, req, v)"
    by (metis prod_cases3)
  note commit = txn_commit_run[OF act run(7) pos cons prep fill]
  have w1wal: "wal_attached w1" "filter is_wal_write (trace w1) = filter is_wal_write (trace w)"
    using wal run(2) by (simp_all add: w1_def w0_def)
  have "filter is_wal_write (trace (snd (box_txn_commit w1))) =
          filter is_wal_write (trace w) @ [WalWrite req]"
    using act run(5,6) w1wal
    by (simp add: box_txn_commit_def commit txn_rollback_idle diag_set_def
        filter_wal_write_rollback_events)
  moreover have "map unstamp req =
      map (\<lambda>c. unstamp (redo_row (fst (snd c)))) [c \<leftarrow> cs. \<not> is_temporary (fst c)]"
    using wal_request_fill_rows[OF fill] run(3)
    by (simp add: committed_stmt_rows comp_def)
  ultimately show ?thesis
    using run(1) begun by (simp add: w1_def)
qed

text \<open>
  The claim as it was stated fails: a statement on a space that is not temporary, with
  neither an old nor a new tuple, is counted in \<open>n_rows\<close> and its row is written at commit.
\<close>

theorem no_change_statement_counterexample:
  "map_option n_rows (fiber_txn world_no_change) = Some 1 \<and>
   map_option (\<lambda>t. length (filter durable_change (stmts t))) (fiber_txn world_no_change) =
     Some 0 \<and>
   filter is_wal_write (trace (snd (box_txn_commit world_no_change))) =
     [WalWrite [(redo_row request0)\<lparr>row_lsn := 1\<rparr>]]"
  by (simp add: world_no_change_def world_begun_def world0_def memtx_space_def
      request0_def exec_stmt_def engine_set_tuples_def durable_change_def redo_row_def
      box_txn_begin_def box_txn_commit_def txn_begin_def txn_begin_stmt_def
      txn_begin_in_engine_def txn_stmt_new_def txn_commit_stmt_def txn_add_redo_def
      txn_commit_def txn_write_to_wal_def recovery_fill_lsn_def wal_write_def
      Let_def emit_def fiber_set_txn_def TXN_SUB_STMT_MAX_def)

subsection \<open>A statement committed after a nested one\<close>




end
